theory Spec2Isabelle
  imports Complex_Main "HOL-Library.AList"
begin

section \<open>Values\<close>

text \<open>
  A JavaScript number is an IEEE double. The model keeps the three special values apart
  and represents a finite value by the rational it denotes, so a decimal literal is
  read exactly; it agrees with the source on every literal that a double represents
  exactly (such as 0, 0.5, 1, 7), and it does not distinguish \<open>-0\<close> from \<open>0\<close>.
\<close>

datatype number = Finite rat | PosInfinity | NegInfinity | NaN

text \<open>
  The values the program handles (\<open>unknown\<close> in the source): the scalars, plain objects
  with their properties in insertion order, and arrays. A Color is the plain object
  \<open>{r, g, b, a}\<close> and a Vector2 the plain object \<open>{x, y}\<close>, as in the source.
  Strings are lists of 8-bit characters; a character above 126 stands for any code unit
  above 126.
\<close>

datatype jsval =
    Undefined
  | Null
  | Bool bool
  | Num number
  | Str string
  | Obj "(string \<times> jsval) list"
  | Arr "jsval list"

type_synonym section_map = "(string \<times> jsval) list"
type_synonym document = "(string \<times> section_map) list"

text \<open>
  \<open>Map.has\<close>, \<open>Map.get\<close> and \<open>Map.set\<close> on an insertion-ordered map: \<open>set\<close> on a
  present key replaces the value in place, on a new key it appends.
\<close>

definition map_has :: "('k \<times> 'v) list \<Rightarrow> 'k \<Rightarrow> bool" where
  "map_has m k = (map_of m k \<noteq> None)"

definition map_get :: "('k \<times> 'v) list \<Rightarrow> 'k \<Rightarrow> 'v option" where
  "map_get m k = map_of m k"

definition map_set :: "('k \<times> 'v) list \<Rightarrow> 'k \<Rightarrow> 'v \<Rightarrow> ('k \<times> 'v) list" where
  "map_set m k v = AList.update k v m"

section \<open>The lexer\<close>

datatype ParseError = ParseError (message: string) (err_line: nat)

datatype TokenType =
    STRING | NUMBER | BOOLEAN | IDENTIFIER
  | BRACKET_OPEN | BRACKET_CLOSE | PARENTHESIS_OPEN | PARENTHESIS_CLOSE
  | EQUAL | COMMA | SEMICOLON | HASH | EOF

fun type_name :: "TokenType \<Rightarrow> string" where
  "type_name STRING = ''STRING''"
| "type_name NUMBER = ''NUMBER''"
| "type_name BOOLEAN = ''BOOLEAN''"
| "type_name IDENTIFIER = ''IDENTIFIER''"
| "type_name BRACKET_OPEN = ''BRACKET_OPEN''"
| "type_name BRACKET_CLOSE = ''BRACKET_CLOSE''"
| "type_name PARENTHESIS_OPEN = ''PARENTHESIS_OPEN''"
| "type_name PARENTHESIS_CLOSE = ''PARENTHESIS_CLOSE''"
| "type_name EQUAL = ''EQUAL''"
| "type_name COMMA = ''COMMA''"
| "type_name SEMICOLON = ''SEMICOLON''"
| "type_name HASH = ''HASH''"
| "type_name EOF = ''EOF''"

datatype token_value = SVal string | NVal number | BVal bool

datatype Token = Token (ttype: TokenType) (tvalue: token_value) (tline: nat)

text \<open>
  The character cursor. \<open>pending\<close> is the part of \<open>content\<close> from \<open>pos\<close> on, \<open>line\<close>
  the running line counter. The source's pushback slot \<open>saved\<close> is left out:
  \<open>save_char\<close> is never called, so the slot is \<open>null\<close> throughout.
\<close>

record Stream =
  pending :: string
  line :: nat

abbreviation NUL :: char where "NUL \<equiv> CHR 0x00"
abbreviation LF :: char where "LF \<equiv> CHR 0x0A"
abbreviation CR :: char where "CR \<equiv> CHR 0x0D"
abbreviation TAB :: char where "TAB \<equiv> CHR 0x09"
abbreviation DQUOTE :: char where "DQUOTE \<equiv> CHR 0x22"
abbreviation BACKSLASH :: char where "BACKSLASH \<equiv> CHR 0x5C"

definition new_Stream :: "string \<Rightarrow> Stream" where
  "new_Stream content = \<lparr>pending = content, line = 1\<rparr>"

definition get_char :: "Stream \<Rightarrow> char \<times> Stream" where
  "get_char s =
     (case pending s of
        [] \<Rightarrow> (NUL, s)
      | c # cs \<Rightarrow> (c, s\<lparr>pending := cs, line := (if c = LF then line s + 1 else line s)\<rparr>))"

definition peek_char :: "Stream \<Rightarrow> char" where
  "peek_char s = (case pending s of [] \<Rightarrow> NUL | c # cs \<Rightarrow> c)"

definition code :: "char \<Rightarrow> nat" where
  "code c = of_char c"

definition is_whitespace :: "char \<Rightarrow> bool" where
  "is_whitespace c = (c = CHR '' '' \<or> c = TAB \<or> c = CR \<or> c = LF)"

definition is_digit :: "char \<Rightarrow> bool" where
  "is_digit c = (code (CHR ''0'') \<le> code c \<and> code c \<le> code (CHR ''9''))"

definition is_alpha :: "char \<Rightarrow> bool" where
  "is_alpha c =
     ((code (CHR ''a'') \<le> code c \<and> code c \<le> code (CHR ''z'')) \<or>
      (code (CHR ''A'') \<le> code c \<and> code c \<le> code (CHR ''Z'')) \<or> c = CHR ''_'')"

definition is_alnum :: "char \<Rightarrow> bool" where
  "is_alnum c = (is_alpha c \<or> is_digit c)"

definition is_identifier_char :: "char \<Rightarrow> bool" where
  "is_identifier_char c =
     (is_alnum c \<or> c = CHR ''/'' \<or> c = CHR ''.'' \<or> c = CHR ''_'' \<or> c = CHR ''-'')"

text \<open>The loops of \<open>get_token\<close>, one function each.\<close>

text \<open>Skipping whitespace: \<open>while (is_whitespace(peek_char())) get_char()\<close>.\<close>

function skip_whitespace :: "Stream \<Rightarrow> Stream" where
  "skip_whitespace s =
     (if is_whitespace (peek_char s) then skip_whitespace (snd (get_char s)) else s)"
  by pat_completeness auto
termination
  by (relation "measure (\<lambda>s. length (pending s))")
     (auto simp: peek_char_def get_char_def is_whitespace_def split: list.splits)

declare skip_whitespace.simps [simp del]

text \<open>A comment: characters are consumed up to and including the line feed (or NUL).\<close>

function skip_comment :: "Stream \<Rightarrow> Stream" where
  "skip_comment s =
     (let ch = fst (get_char s); s' = snd (get_char s)
      in if ch = LF \<or> ch = NUL then s' else skip_comment s')"
  by pat_completeness auto
termination
  by (relation "measure (\<lambda>s. length (pending s))")
     (auto simp: get_char_def split: list.splits)

declare skip_comment.simps [simp del]

text \<open>
  The body of a string literal, after the opening quote. \<open>lno\<close> is the line of the
  opening quote, \<open>str\<close> the text read so far, \<open>escaped\<close> the escape flag.
\<close>

function lex_string :: "nat \<Rightarrow> string \<Rightarrow> bool \<Rightarrow> Stream \<Rightarrow> ParseError + (string \<times> Stream)" where
  "lex_string lno str escaped s =
     (let ch = fst (get_char s); s' = snd (get_char s)
      in if ch = NUL then Inl (ParseError ''Unterminated string'' lno)
         else if escaped then
           lex_string lno
             (if ch = CHR ''n'' then str @ [LF]
              else if ch = CHR ''t'' then str @ [TAB]
              else if ch = CHR ''r'' then str @ [CR]
              else if ch = BACKSLASH then str @ [BACKSLASH]
              else if ch = DQUOTE then str @ [DQUOTE]
              else str @ [ch])
             False s'
         else if ch = BACKSLASH then lex_string lno str True s'
         else if ch = DQUOTE then
           (let peek = peek_char s'
            in if peek = NUL \<or> peek = LF \<or> peek = CR \<or> peek = CHR '' '' \<or> peek = TAB \<or>
                  peek = CHR '';'' \<or> peek = CHR ''#''
               then Inr (str, s')
               else Inr (str, s'))
         else lex_string lno (str @ [ch]) False s')"
  by pat_completeness auto
termination
  by (relation "measure (\<lambda>(lno, str, escaped, s). length (pending s))")
     (auto simp: get_char_def split: list.splits)

declare lex_string.simps [simp del]

text \<open>
  The string rule in the words of the specification, for comparison with \<open>lex_string\<close>:
  a double quote closes the string if the next character is white space, the end of the
  input or the start of a comment; any other double quote is content of the string.
\<close>

function lex_string_spec :: "nat \<Rightarrow> string \<Rightarrow> bool \<Rightarrow> Stream \<Rightarrow> ParseError + (string \<times> Stream)" where
  "lex_string_spec lno str escaped s =
     (let ch = fst (get_char s); s' = snd (get_char s)
      in if ch = NUL then Inl (ParseError ''Unterminated string'' lno)
         else if escaped then
           lex_string_spec lno
             (if ch = CHR ''n'' then str @ [LF]
              else if ch = CHR ''t'' then str @ [TAB]
              else if ch = CHR ''r'' then str @ [CR]
              else str @ [ch])
             False s'
         else if ch = BACKSLASH then lex_string_spec lno str True s'
         else if ch = DQUOTE then
           (let peek = peek_char s'
            in if peek = NUL \<or> is_whitespace peek \<or> peek = CHR '';'' \<or> peek = CHR ''#''
               then Inr (str, s')
               else lex_string_spec lno (str @ [DQUOTE]) False s')
         else lex_string_spec lno (str @ [ch]) False s')"
  by pat_completeness auto
termination
  by (relation "measure (\<lambda>(lno, str, escaped, s). length (pending s))")
     (auto simp: get_char_def split: list.splits)

declare lex_string_spec.simps [simp del]

text \<open>
  What a string literal denotes. \<open>escape_char\<close> is the character that a backslash
  followed by \<open>c\<close> stands for. \<open>string_content escaped raw\<close> is the content of the raw
  text \<open>raw\<close> in which every double quote is escaped, that is, preceded by a backslash
  that is not itself escaped; \<open>escaped\<close> tells whether the character before \<open>raw\<close> is
  such a backslash. It is \<open>None\<close> when \<open>raw\<close> holds an unescaped double quote or a NUL,
  or ends with a backslash that escapes nothing.
\<close>

definition escape_char :: "char \<Rightarrow> char" where
  "escape_char c =
     (if c = CHR ''n'' then LF else if c = CHR ''t'' then TAB else if c = CHR ''r'' then CR else c)"

fun string_content :: "bool \<Rightarrow> string \<Rightarrow> string option" where
  "string_content escaped [] = (if escaped then None else Some [])"
| "string_content escaped (c # cs) =
     (if c = NUL then None
      else if escaped then map_option ((#) (escape_char c)) (string_content False cs)
      else if c = BACKSLASH then string_content True cs
      else if c = DQUOTE then None
      else map_option ((#) c) (string_content False cs))"

text \<open>The digits of a number literal, with at most one decimal point.\<close>

function lex_number :: "string \<Rightarrow> bool \<Rightarrow> Stream \<Rightarrow> string \<times> Stream" where
  "lex_number numStr hasDot s =
     (let nextPeek = peek_char s
      in if is_digit nextPeek \<or> nextPeek = CHR ''.'' then
           (if nextPeek = CHR ''.'' \<and> hasDot then (numStr, s)
            else lex_number (numStr @ [fst (get_char s)])
                   (if nextPeek = CHR ''.'' then True else hasDot) (snd (get_char s)))
         else (numStr, s))"
  by pat_completeness auto
termination
  by (relation "measure (\<lambda>(numStr, hasDot, s). length (pending s))")
     (auto simp: get_char_def peek_char_def is_digit_def code_def split: list.splits)

declare lex_number.simps [simp del]

function lex_identifier :: "string \<Rightarrow> Stream \<Rightarrow> string \<times> Stream" where
  "lex_identifier ident s =
     (if is_identifier_char (peek_char s)
      then lex_identifier (ident @ [fst (get_char s)]) (snd (get_char s))
      else (ident, s))"
  by pat_completeness auto
termination
  by (relation "measure (\<lambda>(ident, s). length (pending s))")
     (auto simp: get_char_def peek_char_def is_identifier_char_def is_alnum_def is_alpha_def
                 is_digit_def code_def split: list.splits)

declare lex_identifier.simps [simp del]

text \<open>
  \<open>parseFloat\<close> on the texts the lexer hands to it: an optional sign, digits, an
  optional decimal point and digits (the lexer never passes an exponent, white space or
  \<open>Infinity\<close>). A text with no digit at all is \<open>NaN\<close>.
\<close>

definition digit_value :: "char \<Rightarrow> nat" where
  "digit_value c = code c - code (CHR ''0'')"

definition digits_value :: "string \<Rightarrow> nat" where
  "digits_value ds = foldl (\<lambda>acc d. 10 * acc + digit_value d) 0 ds"

definition parseFloat :: "string \<Rightarrow> number" where
  "parseFloat str =
     (let neg = (case str of [] \<Rightarrow> False | c # cs \<Rightarrow> c = CHR ''-'');
          body = (case str of [] \<Rightarrow> [] | c # cs \<Rightarrow> if c = CHR ''-'' \<or> c = CHR ''+'' then cs else str);
          ip = takeWhile is_digit body;
          after = dropWhile is_digit body;
          fp = (case after of [] \<Rightarrow> [] | c # cs \<Rightarrow> if c = CHR ''.'' then takeWhile is_digit cs else [])
      in if ip = [] \<and> fp = [] then NaN
         else Finite ((if neg then - 1 else 1) *
                (of_nat (digits_value ip) + of_nat (digits_value fp) / 10 ^ length fp)))"

definition isNaN :: "number \<Rightarrow> bool" where
  "isNaN n = (n = NaN)"

lemma get_char_length: "length (pending (snd (get_char s))) \<le> length (pending s)"
  by (simp add: get_char_def split: list.splits)

lemma get_char_consumes:
  "fst (get_char s) \<noteq> NUL \<Longrightarrow> length (pending (snd (get_char s))) < length (pending s)"
  by (simp add: get_char_def split: list.splits)

lemma skip_whitespace_length: "length (pending (skip_whitespace s)) \<le> length (pending s)"
proof (induction s rule: skip_whitespace.induct)
  case (1 s)
  show ?case
  proof (cases "is_whitespace (peek_char s)")
    case True
    with 1 have "length (pending (skip_whitespace (snd (get_char s)))) \<le> length (pending (snd (get_char s)))"
      by simp
    with True get_char_length [of s] show ?thesis
      by (subst skip_whitespace.simps) simp
  next
    case False
    then show ?thesis by (subst skip_whitespace.simps) simp
  qed
qed

lemma skip_comment_length: "length (pending (skip_comment s)) \<le> length (pending s)"
proof (induction s rule: skip_comment.induct)
  case (1 s)
  show ?case
  proof (cases "fst (get_char s) = LF \<or> fst (get_char s) = NUL")
    case True
    with get_char_length [of s] show ?thesis
      by (subst skip_comment.simps) (simp add: Let_def)
  next
    case False
    with 1 have "length (pending (skip_comment (snd (get_char s)))) \<le> length (pending (snd (get_char s)))"
      by simp
    with False get_char_length [of s] show ?thesis
      by (subst skip_comment.simps) (simp add: Let_def)
  qed
qed


lemma lex_string_length:
  "lex_string lno str escaped s = Inr (r, s') \<Longrightarrow> length (pending s') \<le> length (pending s)"
proof (induction lno str escaped s rule: lex_string.induct)
  case (1 lno str escaped s)
  define ch where "ch = fst (get_char s)"
  define s1 where "s1 = snd (get_char s)"
  have le: "length (pending s1) \<le> length (pending s)"
    unfolding s1_def by (rule get_char_length)
  have unf: "lex_string lno str escaped s =
     (if ch = NUL then Inl (ParseError ''Unterminated string'' lno)
         else if escaped then
           lex_string lno
             (if ch = CHR ''n'' then str @ [LF]
              else if ch = CHR ''t'' then str @ [TAB]
              else if ch = CHR ''r'' then str @ [CR]
              else if ch = BACKSLASH then str @ [BACKSLASH]
              else if ch = DQUOTE then str @ [DQUOTE]
              else str @ [ch])
             False s1
         else if ch = BACKSLASH then lex_string lno str True s1
         else if ch = DQUOTE then Inr (str, s1)
         else lex_string lno (str @ [ch]) False s1)"
    unfolding ch_def s1_def by (subst lex_string.simps) (simp add: Let_def)
  note IH = "1.IH" [OF ch_def s1_def]
  show ?case
  proof (cases "ch = NUL")
    case True
    with "1.prems" unf show ?thesis by simp
  next
    case nz: False
    show ?thesis
    proof (cases escaped)
      case True
      with "1.prems" unf nz IH(1) le show ?thesis by simp
    next
      case ne: False
      show ?thesis
      proof (cases "ch = BACKSLASH")
        case True
        with "1.prems" unf nz ne IH(2) le show ?thesis by simp
      next
        case nb: False
        show ?thesis
        proof (cases "ch = DQUOTE")
          case True
          with "1.prems" unf nz ne nb le show ?thesis by simp
        next
          case False
          with "1.prems" unf nz ne nb IH(3) le show ?thesis by simp
        qed
      qed
    qed
  qed
qed

lemma lex_number_length:
  "lex_number numStr hasDot s = (r, s') \<Longrightarrow> length (pending s') \<le> length (pending s)"
proof (induction numStr hasDot s rule: lex_number.induct)
  case (1 numStr hasDot s)
  define p where "p = peek_char s"
  have le: "length (pending (snd (get_char s))) \<le> length (pending s)"
    by (rule get_char_length)
  have unf: "lex_number numStr hasDot s =
     (if is_digit p \<or> p = CHR ''.'' then
           (if p = CHR ''.'' \<and> hasDot then (numStr, s)
            else lex_number (numStr @ [fst (get_char s)])
                   (if p = CHR ''.'' then True else hasDot) (snd (get_char s)))
         else (numStr, s))"
    unfolding p_def by (subst lex_number.simps) (simp add: Let_def)
  note IH = "1.IH" [OF p_def]
  show ?case
  proof (cases "(is_digit p \<or> p = CHR ''.'') \<and> \<not> (p = CHR ''.'' \<and> hasDot)")
    case True
    with "1.prems" unf IH le show ?thesis by auto
  next
    case False
    with "1.prems" unf show ?thesis by auto
  qed
qed

lemma lex_identifier_length:
  "lex_identifier ident s = (r, s') \<Longrightarrow> length (pending s') \<le> length (pending s)"
proof (induction ident s rule: lex_identifier.induct)
  case (1 ident s)
  have le: "length (pending (snd (get_char s))) \<le> length (pending s)"
    by (rule get_char_length)
  show ?case
  proof (cases "is_identifier_char (peek_char s)")
    case True
    with "1.prems" have "lex_identifier (ident @ [fst (get_char s)]) (snd (get_char s)) = (r, s')"
      by (subst (asm) lex_identifier.simps) simp
    with "1.IH" [OF True] le show ?thesis by simp
  next
    case False
    with "1.prems" show ?thesis by (subst (asm) lex_identifier.simps) simp
  qed
qed

text \<open>
  The \<open>default:\<close> branch of the switch in \<open>get_token\<close>: a number, a boolean or an
  identifier that starts with the character \<open>c\<close> just read; \<open>lno\<close> is the token's line.
\<close>

definition lex_default :: "nat \<Rightarrow> char \<Rightarrow> Stream \<Rightarrow> ParseError + (Token \<times> Stream)" where
  "lex_default lno c s1 =
     (let peek = peek_char s1
      in if is_digit c \<or> (c = CHR ''-'' \<and> is_digit peek) \<or>
            (c = CHR ''+'' \<and> is_digit peek) \<or> (c = CHR ''.'' \<and> is_digit peek)
         then
           (let numStr = fst (lex_number [c] (c = CHR ''.'') s1);
                s2 = snd (lex_number [c] (c = CHR ''.'') s1);
                num = parseFloat numStr
            in if isNaN num then Inl (ParseError (''Invalid number: '' @ numStr) lno)
               else Inr (Token NUMBER (NVal num) lno, s2))
         else if is_alpha c \<or> c = CHR ''/'' then
           (let ident = fst (lex_identifier [c] s1);
                s2 = snd (lex_identifier [c] s1)
            in if ident = ''true'' then Inr (Token BOOLEAN (BVal True) lno, s2)
               else if ident = ''false'' then Inr (Token BOOLEAN (BVal False) lno, s2)
               else Inr (Token IDENTIFIER (SVal ident) lno, s2))
         else Inl (ParseError (''Unexpected character: '' @ [c]) lno))"

text \<open>
  \<open>get_token\<close>. A thrown \<open>ParseError\<close> is the left summand; the stream after the call
  is returned with the token.
\<close>

function get_token :: "Stream \<Rightarrow> ParseError + (Token \<times> Stream)" where
  "get_token stream =
     (let s0 = skip_whitespace stream;
          lno = line s0;
          c = fst (get_char s0);
          s1 = snd (get_char s0)
      in if c = NUL then Inr (Token EOF (SVal []) lno, s1)
         else if c = CHR ''['' then Inr (Token BRACKET_OPEN (SVal [c]) lno, s1)
         else if c = CHR '']'' then Inr (Token BRACKET_CLOSE (SVal [c]) lno, s1)
         else if c = CHR ''('' then Inr (Token PARENTHESIS_OPEN (SVal [c]) lno, s1)
         else if c = CHR '')'' then Inr (Token PARENTHESIS_CLOSE (SVal [c]) lno, s1)
         else if c = CHR ''='' then Inr (Token EQUAL (SVal [c]) lno, s1)
         else if c = CHR '','' then Inr (Token COMMA (SVal [c]) lno, s1)
         else if c = CHR '';'' then get_token (skip_comment s1)
         else if c = CHR ''#'' then get_token (skip_comment s1)
         else if c = DQUOTE then
           (case lex_string lno [] False s1 of
              Inl e \<Rightarrow> Inl e
            | Inr (str, s2) \<Rightarrow> Inr (Token STRING (SVal str) lno, s2))
         else lex_default lno c s1)"
  by pat_completeness auto
termination
proof (relation "measure (\<lambda>s. length (pending s))")
  show "wf (measure (\<lambda>s. length (pending s)))" by simp
next
  fix stream s0 lno c s1
  assume "s0 = skip_whitespace stream" "c = fst (get_char s0)" "s1 = snd (get_char s0)"
    "c \<noteq> NUL"
  then have "length (pending (skip_comment s1)) < length (pending stream)"
    using skip_comment_length [of s1] get_char_consumes [of s0] skip_whitespace_length [of stream]
    by simp
  then show "(skip_comment s1, stream) \<in> measure (\<lambda>s. length (pending s))" by simp
next
  fix stream s0 lno c s1
  assume "s0 = skip_whitespace stream" "c = fst (get_char s0)" "s1 = snd (get_char s0)"
    "c \<noteq> NUL"
  then have "length (pending (skip_comment s1)) < length (pending stream)"
    using skip_comment_length [of s1] get_char_consumes [of s0] skip_whitespace_length [of stream]
    by simp
  then show "(skip_comment s1, stream) \<in> measure (\<lambda>s. length (pending s))" by simp
qed

declare get_token.simps [simp del]

lemma lex_default_length:
  assumes "lex_default lno c s1 = Inr (tok, s')"
  shows "length (pending s') \<le> length (pending s1)"
proof -
  have ln: "length (pending (snd (lex_number [c] (c = CHR ''.'') s1))) \<le> length (pending s1)"
    by (rule lex_number_length [OF prod.collapse [symmetric]])
  have li: "length (pending (snd (lex_identifier [c] s1))) \<le> length (pending s1)"
    by (rule lex_identifier_length [OF prod.collapse [symmetric]])
  from assms have "s' = snd (lex_number [c] (c = CHR ''.'') s1) \<or> s' = snd (lex_identifier [c] s1)"
    unfolding lex_default_def Let_def by (simp split: if_splits)
  with ln li show ?thesis by auto
qed

lemma get_token_length_aux:
  "get_token s = Inr (tok, s') \<Longrightarrow>
   length (pending s') \<le> length (pending (snd (get_char (skip_whitespace s))))"
proof (induction s rule: get_token.induct)
  case (1 stream)
  define s0 where "s0 = skip_whitespace stream"
  define c where "c = fst (get_char s0)"
  define s1 where "s1 = snd (get_char s0)"
  note IH = "1.IH" [OF s0_def refl c_def s1_def]
  have unf: "get_token stream = (if c = NUL then Inr (Token EOF (SVal []) (line s0), s1)
         else if c = CHR ''['' then Inr (Token BRACKET_OPEN (SVal [c]) (line s0), s1)
         else if c = CHR '']'' then Inr (Token BRACKET_CLOSE (SVal [c]) (line s0), s1)
         else if c = CHR ''('' then Inr (Token PARENTHESIS_OPEN (SVal [c]) (line s0), s1)
         else if c = CHR '')'' then Inr (Token PARENTHESIS_CLOSE (SVal [c]) (line s0), s1)
         else if c = CHR ''='' then Inr (Token EQUAL (SVal [c]) (line s0), s1)
         else if c = CHR '','' then Inr (Token COMMA (SVal [c]) (line s0), s1)
         else if c = CHR '';'' then get_token (skip_comment s1)
         else if c = CHR ''#'' then get_token (skip_comment s1)
         else if c = DQUOTE then
           (case lex_string (line s0) [] False s1 of
              Inl e \<Rightarrow> Inl e
            | Inr (str, s2) \<Rightarrow> Inr (Token STRING (SVal str) (line s0), s2))
         else lex_default (line s0) c s1)"
    unfolding s0_def c_def s1_def by (subst get_token.simps) (simp only: Let_def)
  have l0: "length (pending (skip_whitespace (skip_comment s1))) \<le> length (pending (skip_comment s1))"
    by (rule skip_whitespace_length)
  have l1: "length (pending (snd (get_char (skip_whitespace (skip_comment s1)))))
       \<le> length (pending (skip_whitespace (skip_comment s1)))"
    by (rule get_char_length)
  have lc: "length (pending (skip_comment s1)) \<le> length (pending s1)"
    by (rule skip_comment_length)
  consider (comment) "c \<noteq> NUL" "c = CHR '';'' \<or> c = CHR ''#''"
    | (str) "c = DQUOTE" 
    | (single) "c = NUL \<or> c = CHR ''['' \<or> c = CHR '']'' \<or> c = CHR ''('' \<or> c = CHR '')'' \<or> c = CHR ''='' \<or> c = CHR '',''"
    | (other) "c \<noteq> NUL" "c \<noteq> CHR ''[''" "c \<noteq> CHR '']''" "c \<noteq> CHR ''(''" "c \<noteq> CHR '')''" "c \<noteq> CHR ''=''" "c \<noteq> CHR '',''"
         "c \<noteq> CHR '';''" "c \<noteq> CHR ''#''" "c \<noteq> DQUOTE"
    by blast
  then show ?case
  proof cases
    case comment
    then have "get_token stream = get_token (skip_comment s1)"
      by (subst unf) auto
    with "1.prems" have "get_token (skip_comment s1) = Inr (tok, s')" by simp
    then have tk: "get_token (skip_comment s1) = Inr (tok, s')" .
    have "length (pending s') \<le> length (pending (snd (get_char (skip_whitespace (skip_comment s1)))))"
    proof (cases "c = CHR '';''")
      case True
      show ?thesis by (rule IH(1)) (simp_all add: True tk)
    next
      case False
      with comment have h: "c = CHR ''#''" by simp
      show ?thesis by (rule IH(2)) (simp_all add: h tk)
    qed
    with l0 l1 lc show ?thesis unfolding s1_def s0_def by simp
  next
    case str
    with "1.prems" obtain r where "lex_string (line s0) [] False s1 = Inr (r, s')"
      by (subst (asm) unf) (auto split: sum.splits)
    from lex_string_length [OF this] show ?thesis unfolding s1_def s0_def by simp
  next
    case single
    with "1.prems" have "s' = s1"
      by (subst (asm) unf) auto
    then show ?thesis unfolding s1_def s0_def by simp
  next
    case other
    with "1.prems" have "lex_default (line s0) c s1 = Inr (tok, s')"
      by (subst (asm) unf) simp
    from lex_default_length [OF this] show ?thesis unfolding s1_def s0_def by simp
  qed
qed

lemma get_token_length:
  assumes "get_token s = Inr (tok, s')"
  shows "length (pending s') \<le> length (pending s)"
  using get_token_length_aux [OF assms] get_char_length [of "skip_whitespace s"]
    skip_whitespace_length [of s]
  by simp

lemma get_token_unfold:
  "get_token stream =
     (let s0 = skip_whitespace stream; c = fst (get_char s0); s1 = snd (get_char s0)
      in if c = NUL then Inr (Token EOF (SVal []) (line s0), s1)
         else if c = CHR ''['' then Inr (Token BRACKET_OPEN (SVal [c]) (line s0), s1)
         else if c = CHR '']'' then Inr (Token BRACKET_CLOSE (SVal [c]) (line s0), s1)
         else if c = CHR ''('' then Inr (Token PARENTHESIS_OPEN (SVal [c]) (line s0), s1)
         else if c = CHR '')'' then Inr (Token PARENTHESIS_CLOSE (SVal [c]) (line s0), s1)
         else if c = CHR ''='' then Inr (Token EQUAL (SVal [c]) (line s0), s1)
         else if c = CHR '','' then Inr (Token COMMA (SVal [c]) (line s0), s1)
         else if c = CHR '';'' then get_token (skip_comment s1)
         else if c = CHR ''#'' then get_token (skip_comment s1)
         else if c = DQUOTE then
           (case lex_string (line s0) [] False s1 of
              Inl e \<Rightarrow> Inl e
            | Inr (str, s2) \<Rightarrow> Inr (Token STRING (SVal str) (line s0), s2))
         else lex_default (line s0) c s1)"
  by (subst get_token.simps) (simp only: Let_def)

lemma get_token_consumes:
  assumes "get_token s = Inr (tok, s')" and "ttype tok \<noteq> EOF"
  shows "length (pending s') < length (pending s)"
proof -
  define s0 where "s0 = skip_whitespace s"
  have nz: "fst (get_char s0) \<noteq> NUL"
  proof
    assume "fst (get_char s0) = NUL"
    then have "get_token s = Inr (Token EOF (SVal []) (line s0), snd (get_char s0))"
      by (subst get_token_unfold) (simp add: Let_def s0_def)
    with assms show False by auto
  qed
  have "length (pending s0) \<le> length (pending s)"
    unfolding s0_def by (rule skip_whitespace_length)
  moreover have "length (pending (snd (get_char s0))) < length (pending s0)"
    using nz by (rule get_char_consumes)
  moreover have "length (pending s') \<le> length (pending (snd (get_char s0)))"
    unfolding s0_def by (rule get_token_length_aux [OF assms(1)])
  ultimately show ?thesis by simp
qed

section \<open>The value parser\<close>

text \<open>
  The casts \<open>token.value as number\<close> and \<open>String(token.value)\<close>. They are applied to
  NUMBER tokens and to IDENTIFIER or STRING tokens only, whose values are a number and a
  string; the other cases do not arise.
\<close>

fun as_number :: "token_value \<Rightarrow> number" where
  "as_number (NVal n) = n"
| "as_number _ = NaN"

fun token_string :: "token_value \<Rightarrow> string" where
  "token_string (SVal s) = s"
| "token_string _ = []"

fun to_jsval :: "token_value \<Rightarrow> jsval" where
  "to_jsval (SVal s) = Str s"
| "to_jsval (NVal n) = Num n"
| "to_jsval (BVal b) = Bool b"

text \<open>
  The loop of \<open>parse_construct_args\<close>. \<open>construct_separator\<close> is the block run when
  \<open>first\<close> is false: it reads the comma, or the closing parenthesis that ends the loop
  (result \<open>True\<close>). \<open>construct_number\<close> turns the argument token into a number.
\<close>

definition construct_separator :: "Stream \<Rightarrow> ParseError + (bool \<times> Stream)" where
  "construct_separator s =
     (case get_token s of
        Inl e \<Rightarrow> Inl e
      | Inr (token, s1) \<Rightarrow>
          if ttype token = COMMA then Inr (False, s1)
          else if ttype token = PARENTHESIS_CLOSE then Inr (True, s1)
          else Inl (ParseError ''Expected ',' or ')' in constructor'' (tline token)))"

definition construct_number :: "Token \<Rightarrow> ParseError + number" where
  "construct_number token =
     (if ttype token = NUMBER then Inr (as_number (tvalue token))
      else if ttype token = IDENTIFIER then
        (let ident = token_string (tvalue token)
         in if ident = ''inf'' \<or> ident = ''Infinity'' then Inr PosInfinity
            else if ident = ''-inf'' \<or> ident = ''-Infinity'' then Inr NegInfinity
            else if ident = ''nan'' \<or> ident = ''NaN'' then Inr NaN
            else Inl (ParseError (''Expected number in constructor, got: '' @ ident) (tline token)))
      else Inl (ParseError ''Expected number in constructor'' (tline token)))"

lemma construct_number_type:
  "construct_number token = Inr n \<Longrightarrow> ttype token = NUMBER \<or> ttype token = IDENTIFIER"
  by (simp add: construct_number_def split: if_splits)

lemma construct_separator_length:
  "construct_separator s = Inr (b, s') \<Longrightarrow> length (pending s') \<le> length (pending s)"
  by (auto simp: construct_separator_def split: sum.splits if_splits dest: get_token_length)

function construct_args_loop ::
  "bool \<Rightarrow> number list \<Rightarrow> Stream \<Rightarrow> ParseError + (number list \<times> Stream)" where
  "construct_args_loop first args s =
     (case (if \<not> first then construct_separator s else Inr (False, s)) of
        Inl e \<Rightarrow> Inl e
      | Inr (ended, s1) \<Rightarrow>
          if ended then Inr (args, s1)
          else
            (case get_token s1 of
               Inl e \<Rightarrow> Inl e
             | Inr (token, s2) \<Rightarrow>
                 if first \<and> ttype token = PARENTHESIS_CLOSE then Inr (args, s2)
                 else
                   (case construct_number token of
                      Inl e \<Rightarrow> Inl e
                    | Inr n \<Rightarrow> construct_args_loop False (args @ [n]) s2)))"
  by pat_completeness auto
termination
proof (relation "measure (\<lambda>(first, args, s). length (pending s))")
  show "wf (measure (\<lambda>(first, args, s). length (pending s)))" by simp
next
  fix first :: bool and args :: "number list" and s x2 ended s1 x2a token s2 n
  assume sep: "(if \<not> first then construct_separator s else Inr (False, s)) = Inr x2"
    and x2: "(ended, s1) = x2"
    and tok: "get_token s1 = Inr x2a" and x2a: "(token, s2) = x2a"
    and num: "construct_number token = Inr n"
  from sep x2 have "length (pending s1) \<le> length (pending s)"
    by (auto split: if_splits dest: construct_separator_length)
  moreover from construct_number_type [OF num] have "ttype token \<noteq> EOF" by auto
  with tok x2a have "length (pending s2) < length (pending s1)"
    by (intro get_token_consumes [of s1 token s2]) auto
  ultimately show "((False, args @ [n], s2), first, args, s)
      \<in> measure (\<lambda>(first, args, s). length (pending s))"
    by simp
qed

declare construct_args_loop.simps [simp del]

definition parse_construct_args :: "Stream \<Rightarrow> ParseError + (number list \<times> Stream)" where
  "parse_construct_args s =
     (case get_token s of
        Inl e \<Rightarrow> Inl e
      | Inr (token, s1) \<Rightarrow>
          if ttype token \<noteq> PARENTHESIS_OPEN
          then Inl (ParseError ''Expected '(' in constructor'' (tline token))
          else construct_args_loop True [] s1)"

definition parse_value :: "Stream \<Rightarrow> ParseError + (jsval \<times> Stream)" where
  "parse_value s =
     (case get_token s of
        Inl e \<Rightarrow> Inl e
      | Inr (token, s1) \<Rightarrow>
          if ttype token = STRING then Inr (to_jsval (tvalue token), s1)
          else if ttype token = NUMBER then Inr (to_jsval (tvalue token), s1)
          else if ttype token = BOOLEAN then Inr (to_jsval (tvalue token), s1)
          else if ttype token = IDENTIFIER then
            (let ident = token_string (tvalue token)
             in if ident = ''Color'' then
                  (case parse_construct_args s1 of
                     Inl e \<Rightarrow> Inl e
                   | Inr (args, s2) \<Rightarrow>
                       if length args \<noteq> 4
                       then Inl (ParseError ''Expected 4 arguments for Color constructor''
                                  (tline token))
                       else Inr (Obj [(''r'', Num (args ! 0)), (''g'', Num (args ! 1)),
                                      (''b'', Num (args ! 2)), (''a'', Num (args ! 3))], s2))
                else if ident = ''Vector2'' then
                  (case parse_construct_args s1 of
                     Inl e \<Rightarrow> Inl e
                   | Inr (args, s2) \<Rightarrow>
                       if length args \<noteq> 2
                       then Inl (ParseError ''Expected 2 arguments for Vector2 constructor''
                                  (tline token))
                       else Inr (Obj [(''x'', Num (args ! 0)), (''y'', Num (args ! 1))], s2))
                else Inl (ParseError (''Unknown identifier: '' @ ident) (tline token)))
          else Inl (ParseError (''Unexpected token type: '' @ type_name (ttype token))
                      (tline token)))"

lemma construct_args_loop_length:
  "construct_args_loop first args s = Inr (r, s') \<Longrightarrow> length (pending s') \<le> length (pending s)"
proof (induction first args s arbitrary: r s' rule: construct_args_loop.induct)
  case (1 first args s)
  from "1.prems" obtain ended s1 where
    sep: "(if \<not> first then construct_separator s else Inr (False, s)) = Inr (ended, s1)"
    by (subst (asm) construct_args_loop.simps) (auto split: sum.splits)
  then have l1: "length (pending s1) \<le> length (pending s)"
    by (auto split: if_splits dest: construct_separator_length)
  show ?case
  proof (cases ended)
    case True
    with "1.prems" sep have "s' = s1"
      by (subst (asm) construct_args_loop.simps) simp
    with l1 show ?thesis by simp
  next
    case False
    with "1.prems" sep obtain token s2 where tok: "get_token s1 = Inr (token, s2)"
      by (subst (asm) construct_args_loop.simps) (auto split: sum.splits)
    from get_token_length [OF tok] have l2: "length (pending s2) \<le> length (pending s1)" .
    show ?thesis
    proof (cases "first \<and> ttype token = PARENTHESIS_CLOSE")
      case True
      with "1.prems" sep False tok have "s' = s2"
        by (subst (asm) construct_args_loop.simps) simp
      with l1 l2 show ?thesis by simp
    next
      case nf: False
      with "1.prems" sep False tok obtain n where
        num: "construct_number token = Inr n" and
        rec: "construct_args_loop False (args @ [n]) s2 = Inr (r, s')"
        by (subst (asm) construct_args_loop.simps) (auto split: sum.splits)
      from "1.IH" [OF sep refl False tok refl nf num rec] l1 l2 show ?thesis by simp
    qed
  qed
qed

lemma parse_construct_args_length:
  "parse_construct_args s = Inr (r, s') \<Longrightarrow> length (pending s') \<le> length (pending s)"
  unfolding parse_construct_args_def
  by (auto split: sum.splits if_splits dest!: get_token_length construct_args_loop_length)

lemma parse_value_length:
  assumes "parse_value s = Inr (v, s')"
  shows "length (pending s') \<le> length (pending s)"
proof -
  from assms obtain token s1 where tok: "get_token s = Inr (token, s1)"
    unfolding parse_value_def by (auto split: sum.splits)
  from get_token_length [OF tok] have l1: "length (pending s1) \<le> length (pending s)" .
  from assms tok have "s' = s1 \<or> (\<exists>args. parse_construct_args s1 = Inr (args, s'))"
    unfolding parse_value_def Let_def by (simp split: if_splits sum.splits prod.splits)
  with l1 show ?thesis by (auto dest: parse_construct_args_length)
qed

section \<open>The document parser\<close>

text \<open>
  The replacement of every backslash followed by a closing bracket by the closing
  bracket alone (\<open>sectionName.replace\<close> with a global pattern).
\<close>

fun unescape_brackets :: "string \<Rightarrow> string" where
  "unescape_brackets (c # d # cs) =
     (if c = BACKSLASH \<and> d = CHR '']'' then CHR '']'' # unescape_brackets cs
      else c # unescape_brackets (d # cs))"
| "unescape_brackets cs = cs"

text \<open>
  The body of the loop of \<open>parse_config\<close>, with the map built so far, the current
  section and the stream as its state. \<open>parse_section_header\<close> is the branch taken after
  an opening bracket, \<open>parse_key_value\<close> the branch taken after an identifier or a string.
  The result of \<open>parse_step\<close> is the thrown \<open>ParseError\<close>, or \<open>None\<close> when the loop ends
  at the end of the input, or the state for the next round.
\<close>

definition parse_section_header ::
  "document \<Rightarrow> Stream \<Rightarrow> ParseError + (document \<times> string \<times> Stream)" where
  "parse_section_header values s1 =
     (case get_token s1 of
        Inl e \<Rightarrow> Inl e
      | Inr (sectionToken, s2) \<Rightarrow>
          if ttype sectionToken \<noteq> IDENTIFIER \<and> ttype sectionToken \<noteq> STRING
          then Inl (ParseError ''Expected section name'' (tline sectionToken))
          else
            (case get_token s2 of
               Inl e \<Rightarrow> Inl e
             | Inr (closeToken, s3) \<Rightarrow>
                 if ttype closeToken = BRACKET_CLOSE then
                   (let sectionName = unescape_brackets (token_string (tvalue sectionToken))
                    in Inr (if \<not> map_has values sectionName
                            then map_set values sectionName [] else values,
                            sectionName, s3))
                 else Inl (ParseError ''Expected ']' after section name'' (tline closeToken))))"

definition parse_key_value ::
  "document \<Rightarrow> string \<Rightarrow> Token \<Rightarrow> Stream \<Rightarrow> ParseError + (document \<times> string \<times> Stream)" where
  "parse_key_value values currentSection token s1 =
     (let key = token_string (tvalue token)
      in case get_token s1 of
           Inl e \<Rightarrow> Inl e
         | Inr (equalToken, s2) \<Rightarrow>
             if ttype equalToken \<noteq> EQUAL
             then Inl (ParseError ''Expected '=' after key'' (tline equalToken))
             else
               (case parse_value s2 of
                  Inl e \<Rightarrow> Inl e
                | Inr (v, s3) \<Rightarrow>
                    (let values1 = (if \<not> map_has values currentSection
                                    then map_set values currentSection [] else values)
                     in Inr (map_set values1 currentSection
                               (map_set (the (map_get values1 currentSection)) key v),
                             currentSection, s3))))"

definition parse_step ::
  "document \<Rightarrow> string \<Rightarrow> Stream \<Rightarrow> ParseError + (document \<times> string \<times> Stream) option" where
  "parse_step values currentSection stream =
     (case get_token (skip_whitespace stream) of
        Inl e \<Rightarrow> Inl e
      | Inr (token, s1) \<Rightarrow>
          if ttype token = EOF then Inr None
          else if ttype token = BRACKET_OPEN then
            (case parse_section_header values s1 of
               Inl e \<Rightarrow> Inl e
             | Inr next \<Rightarrow> Inr (Some next))
          else if ttype token = IDENTIFIER \<or> ttype token = STRING then
            (case parse_key_value values currentSection token s1 of
               Inl e \<Rightarrow> Inl e
             | Inr next \<Rightarrow> Inr (Some next))
          else if ttype token = BRACKET_CLOSE
          then Inl (ParseError (''Unexpected '' @ [CHR 0x27, CHR '']'', CHR 0x27]) (tline token))
          else Inr (Some (values, currentSection, s1)))"

lemma parse_section_header_length:
  assumes "parse_section_header values s1 = Inr (values', cur', s')"
  shows "length (pending s') \<le> length (pending s1)"
proof -
  from assms obtain t2 s2 where g2: "get_token s1 = Inr (t2, s2)"
    unfolding parse_section_header_def by (auto split: sum.splits)
  with assms obtain t3 where g3: "get_token s2 = Inr (t3, s')"
    unfolding parse_section_header_def by (auto simp: Let_def split: sum.splits if_splits)
  from get_token_length [OF g2] get_token_length [OF g3] show ?thesis by simp
qed

lemma parse_key_value_length:
  assumes "parse_key_value values cur token s1 = Inr (values', cur', s')"
  shows "length (pending s') \<le> length (pending s1)"
proof -
  from assms obtain t2 s2 where g2: "get_token s1 = Inr (t2, s2)"
    unfolding parse_key_value_def by (auto simp: Let_def split: sum.splits)
  with assms obtain v where g3: "parse_value s2 = Inr (v, s')"
    unfolding parse_key_value_def by (auto simp: Let_def split: sum.splits if_splits)
  from get_token_length [OF g2] parse_value_length [OF g3] show ?thesis by simp
qed

lemma parse_step_consumes:
  assumes "parse_step values cur stream = Inr (Some (values', cur', s'))"
  shows "length (pending s') < length (pending stream)"
proof -
  from assms obtain token s1 where g: "get_token (skip_whitespace stream) = Inr (token, s1)"
    unfolding parse_step_def by (auto split: sum.splits)
  with assms have ne: "ttype token \<noteq> EOF"
    unfolding parse_step_def by auto
  from get_token_consumes [OF g ne] skip_whitespace_length [of stream]
  have l1: "length (pending s1) < length (pending stream)" by simp
  from assms g ne have
    "parse_section_header values s1 = Inr (values', cur', s') \<or>
     parse_key_value values cur token s1 = Inr (values', cur', s') \<or> s' = s1"
    unfolding parse_step_def by (auto split: sum.splits if_splits)
  with l1 show ?thesis
    by (auto dest: parse_section_header_length parse_key_value_length)
qed

text \<open>
  The loop of \<open>parse_config\<close> inside its \<open>try\<close>. A \<open>ParseError\<close> thrown in the body is
  caught and returned with the map as it is then; no statement of the body changes the
  map before the last point where it can throw, so that map is the one the round
  started with.
\<close>

function parse_loop :: "document \<Rightarrow> string \<Rightarrow> Stream \<Rightarrow> document \<times> ParseError option" where
  "parse_loop values currentSection stream =
     (case parse_step values currentSection stream of
        Inl e \<Rightarrow> (values, Some e)
      | Inr None \<Rightarrow> (values, None)
      | Inr (Some (values', currentSection', stream')) \<Rightarrow>
          parse_loop values' currentSection' stream')"
  by pat_completeness auto
termination
  by (relation "measure (\<lambda>(values, currentSection, stream). length (pending stream))")
     (auto dest: parse_step_consumes)

declare parse_loop.simps [simp del]

definition parse_config :: "string \<Rightarrow> document \<times> ParseError option" where
  "parse_config content = parse_loop [] [] (new_Stream content)"





section \<open>The serializer\<close>

text \<open>
  The text of a number. \<open>String(n)\<close> and a template literal give \<open>NaN\<close>, \<open>Infinity\<close> and
  \<open>-Infinity\<close> for the special values; for a finite value the platform's
  shortest decimal text is the parameter \<open>nt\<close> of every function below.
\<close>

fun number_toString :: "(rat \<Rightarrow> string) \<Rightarrow> number \<Rightarrow> string" where
  "number_toString nt NaN = ''NaN''"
| "number_toString nt PosInfinity = ''Infinity''"
| "number_toString nt NegInfinity = ''-Infinity''"
| "number_toString nt (Finite q) = nt q"

fun join :: "string \<Rightarrow> string list \<Rightarrow> string" where
  "join sep [] = []"
| "join sep [x] = x"
| "join sep (x # y # ys) = x @ sep @ join sep (y # ys)"

text \<open>
  \<open>String(value)\<close>: an object gives \<open>[object Object]\<close>, an array the texts of its elements
  joined by commas, with \<open>null\<close> and \<open>undefined\<close> elements left empty.
\<close>

fun js_String :: "(rat \<Rightarrow> string) \<Rightarrow> jsval \<Rightarrow> string" where
  "js_String nt Undefined = ''undefined''"
| "js_String nt Null = ''null''"
| "js_String nt (Bool b) = (if b then ''true'' else ''false'')"
| "js_String nt (Num n) = number_toString nt n"
| "js_String nt (Str s) = s"
| "js_String nt (Obj ps) = ''[object Object]''"
| "js_String nt (Arr xs) =
     join '','' (map (\<lambda>x. if x = Undefined \<or> x = Null then [] else js_String nt x) xs)"

text \<open>\<open>str.replace\<close> with a global one-character pattern.\<close>

definition replace_all :: "char \<Rightarrow> string \<Rightarrow> string \<Rightarrow> string" where
  "replace_all c r str = concat (map (\<lambda>x. if x = c then r else [x]) str)"

definition needs_quotes :: "string \<Rightarrow> bool" where
  "needs_quotes str =
     (if length str = 0 then True
      else list_ex (\<lambda>c. code c = 61 \<or> code c = 34 \<or> code c = 59 \<or> code c = 91 \<or>
                         code c = 93 \<or> code c < 33 \<or> code c > 126) str)"

definition encode_key :: "string \<Rightarrow> string" where
  "encode_key key =
     (if needs_quotes key
      then (let escaped = replace_all DQUOTE [BACKSLASH, DQUOTE]
                            (replace_all BACKSLASH [BACKSLASH, BACKSLASH] key)
            in [DQUOTE] @ escaped @ [DQUOTE])
      else key)"

definition escape_string :: "string \<Rightarrow> string" where
  "escape_string str =
     replace_all DQUOTE [BACKSLASH, DQUOTE] (replace_all BACKSLASH [BACKSLASH, BACKSLASH] str)"

text \<open>
  Backslash-escaping: every backslash and every double quote gets a backslash in front.
  The two replacements of \<open>encode_key\<close> and \<open>escape_string\<close> amount to it.
\<close>

definition backslash_escape :: "string \<Rightarrow> string" where
  "backslash_escape s =
     concat (map (\<lambda>c. if c = BACKSLASH \<or> c = DQUOTE then [BACKSLASH, c] else [c]) s)"

text \<open>\<open>k in value\<close> together with the test that \<open>typeof value[k]\<close> is \<open>number\<close>, for a value that is an object.\<close>

definition number_prop :: "jsval \<Rightarrow> string \<Rightarrow> number option" where
  "number_prop v k =
     (case v of
        Obj ps \<Rightarrow> (case map_of ps k of Some (Num n) \<Rightarrow> Some n | _ \<Rightarrow> None)
      | _ \<Rightarrow> None)"

definition serialize_value :: "(rat \<Rightarrow> string) \<Rightarrow> jsval \<Rightarrow> string" where
  "serialize_value nt v =
     (case v of
        Null \<Rightarrow> ''null''
      | Undefined \<Rightarrow> ''null''
      | Str s \<Rightarrow> [DQUOTE] @ escape_string s @ [DQUOTE]
      | Num n \<Rightarrow>
          (if isNaN n then ''nan''
           else if n = PosInfinity \<or> n = NegInfinity
           then (if n = PosInfinity then ''inf'' else ''-inf'')
           else js_String nt v)
      | Bool b \<Rightarrow> (if b then ''true'' else ''false'')
      | _ \<Rightarrow>
          (case (number_prop v ''r'', number_prop v ''g'', number_prop v ''b'', number_prop v ''a'') of
             (Some r, Some g, Some b, Some a) \<Rightarrow>
               ''Color('' @ number_toString nt r @ '', '' @ number_toString nt g @ '', '' @
               number_toString nt b @ '', '' @ number_toString nt a @ '')''
           | _ \<Rightarrow>
               (case (number_prop v ''x'', number_prop v ''y'') of
                  (Some x, Some y) \<Rightarrow>
                    ''Vector2('' @ number_toString nt x @ '', '' @ number_toString nt y @ '')''
                | _ \<Rightarrow> js_String nt v)))"

text \<open>
  The loop of \<open>serialize_config\<close> over the sections; the result is the list \<open>sections\<close>
  of output lines, \<open>first\<close> the flag of the source.
\<close>

fun serialize_sections :: "(rat \<Rightarrow> string) \<Rightarrow> bool \<Rightarrow> document \<Rightarrow> string list" where
  "serialize_sections nt first [] = []"
| "serialize_sections nt first ((section, keys) # rest) =
     (if \<not> first then [[]] else []) @
     (if section \<noteq> []
      then [''['' @ replace_all (CHR '']'') [BACKSLASH, CHR '']''] section @ '']'', []]
      else []) @
     map (\<lambda>(key, v). encode_key key @ ''='' @ serialize_value nt v) keys @
     serialize_sections nt False rest"

definition serialize_config :: "(rat \<Rightarrow> string) \<Rightarrow> document \<Rightarrow> string" where
  "serialize_config nt values = join [LF] (serialize_sections nt True values) @ [LF]"

section \<open>The document store\<close>

text \<open>
  The class \<open>ConfigFile\<close>: its one field is the section map (\<open>values\<close> in the source). A
  method that changes the object returns the new object; a method that throws returns
  the message on the left.
\<close>

record ConfigFile =
  cf_values :: document

definition new_ConfigFile :: ConfigFile where
  "new_ConfigFile = \<lparr>cf_values = []\<rparr>"

definition parse :: "ConfigFile \<Rightarrow> string \<Rightarrow> ConfigFile \<times> ParseError option" where
  "parse this content =
     (case parse_config content of
        (values, Some e) \<Rightarrow> (this, Some e)
      | (values, None) \<Rightarrow> (this\<lparr>cf_values := values\<rparr>, None))"

text \<open>\<open>get_value\<close>; the default value \<open>Undefined\<close> stands for the argument left out.\<close>

definition get_value :: "ConfigFile \<Rightarrow> string \<Rightarrow> string \<Rightarrow> jsval \<Rightarrow> string + jsval" where
  "get_value this section key defaultValue =
     (case map_get (cf_values this) section of
        None \<Rightarrow>
          (if defaultValue \<noteq> Undefined then Inr defaultValue
           else Inl (''Section \"'' @ section @ ''\" not found and no default value provided''))
      | Some sectionMap \<Rightarrow>
          (if \<not> map_has sectionMap key then
             (if defaultValue \<noteq> Undefined then Inr defaultValue
              else Inl (''Key \"'' @ key @ ''\" not found in section \"'' @ section @
                        ''\" and no default value provided''))
           else Inr (the (map_get sectionMap key))))"

definition set_value :: "ConfigFile \<Rightarrow> string \<Rightarrow> string \<Rightarrow> jsval \<Rightarrow> ConfigFile" where
  "set_value this section key v =
     (let values1 = (if \<not> map_has (cf_values this) section
                     then map_set (cf_values this) section [] else cf_values this)
      in this\<lparr>cf_values :=
           map_set values1 section (map_set (the (map_get values1 section)) key v)\<rparr>)"

definition has_section :: "ConfigFile \<Rightarrow> string \<Rightarrow> bool" where
  "has_section this section = map_has (cf_values this) section"

definition get_sections :: "ConfigFile \<Rightarrow> string list" where
  "get_sections this = map fst (cf_values this)"

definition get_section_keys :: "ConfigFile \<Rightarrow> string \<Rightarrow> string list" where
  "get_section_keys this section =
     (case map_get (cf_values this) section of
        None \<Rightarrow> []
      | Some sectionMap \<Rightarrow> map fst sectionMap)"

definition encode_to_text :: "(rat \<Rightarrow> string) \<Rightarrow> ConfigFile \<Rightarrow> string" where
  "encode_to_text nt this = serialize_config nt (cf_values this)"

section \<open>Export presets\<close>

type_synonym jsobject = "(string \<times> jsval) list"

text \<open>
  A preset (\<open>ExportPreset\<close>) is a plain object, given by its own properties in
  insertion order, the options mapping under the property \<open>options\<close>.
\<close>

datatype thrown = ThrownParseError ParseError | ThrownError string

definition startsWith :: "string \<Rightarrow> string \<Rightarrow> bool" where
  "startsWith s p = (take (length p) s = p)"

fun string_includes :: "string \<Rightarrow> string \<Rightarrow> bool" where
  "string_includes [] p = (p = [])"
| "string_includes (c # cs) p = (startsWith (c # cs) p \<or> string_includes cs p)"

text \<open>\<open>a.split(".")\<close>: the pieces of \<open>a\<close> between the dots.\<close>

fun split_dots :: "string \<Rightarrow> string list" where
  "split_dots [] = [[]]"
| "split_dots (c # cs) =
     (if c = CHR ''.'' then [] # split_dots cs
      else (case split_dots cs of [] \<Rightarrow> [[c]] | p # ps \<Rightarrow> (c # p) # ps))"

text \<open>
  \<open>parseInt(text, 10)\<close>: leading white space, an optional sign, then the longest run of
  digits; \<open>None\<close> is \<open>NaN\<close>, the result when there is no digit.
\<close>

definition parseInt :: "string \<Rightarrow> int option" where
  "parseInt str =
     (let t = dropWhile (\<lambda>c. is_whitespace c \<or> c = CHR 0x0B \<or> c = CHR 0x0C) str;
          neg = (case t of [] \<Rightarrow> False | c # cs \<Rightarrow> c = CHR ''-'');
          body = (case t of [] \<Rightarrow> [] | c # cs \<Rightarrow> if c = CHR ''-'' \<or> c = CHR ''+'' then cs else t);
          ds = takeWhile is_digit body
      in if ds = [] then None
         else Some ((if neg then - 1 else 1) * int (digits_value ds)))"

text \<open>The comparator of the sort: \<open>aNum - bNum\<close>, \<open>None\<close> when the difference is \<open>NaN\<close>.\<close>

definition section_number :: "string \<Rightarrow> int option" where
  "section_number a =
     parseInt (case split_dots a of
                 p # q # ps \<Rightarrow> (if q = [] then ''0'' else q)
               | _ \<Rightarrow> ''0'')"

definition compare_sections :: "string \<Rightarrow> string \<Rightarrow> int option" where
  "compare_sections a b =
     (case (section_number a, section_number b) of
        (Some aNum, Some bNum) \<Rightarrow> Some (aNum - bNum)
      | _ \<Rightarrow> None)"

text \<open>
  \<open>Array.prototype.sort\<close> with a comparator, as a stable insertion sort: an element
  stays before another unless the comparator is positive (\<open>NaN\<close> counts as zero). For a
  comparator that is not a consistent order the source's result depends on the engine;
  it is a permutation of the input in every case.
\<close>

fun sort_insert :: "('a \<Rightarrow> 'a \<Rightarrow> int option) \<Rightarrow> 'a \<Rightarrow> 'a list \<Rightarrow> 'a list" where
  "sort_insert cmp x [] = [x]"
| "sort_insert cmp x (y # ys) =
     (if (case cmp x y of Some d \<Rightarrow> d \<le> 0 | None \<Rightarrow> True) then x # y # ys
      else y # sort_insert cmp x ys)"

definition js_sort :: "('a \<Rightarrow> 'a \<Rightarrow> int option) \<Rightarrow> 'a list \<Rightarrow> 'a list" where
  "js_sort cmp xs = foldr (sort_insert cmp) xs []"

text \<open>
  The assignment \<open>obj[key] = value\<close> with a computed key, on an object made by an object
  literal. It stores an own property, except for the key \<open>__proto__\<close>: that name is an
  accessor inherited from \<open>Object.prototype\<close>, whose setter replaces the prototype of the
  object (for a value that is an object or \<open>null\<close>) or does nothing (for any other
  value), and no own property is stored. The keys of a section are distinct, so the key
  is assigned at most once to an object, while the setter is still inherited. The
  prototype is not part of \<open>jsobject\<close>; the properties of \<open>Object.prototype\<close> other than
  \<open>__proto__\<close> are writable data properties, which an assignment shadows with an own
  property.
\<close>

definition assign_property :: "jsobject \<Rightarrow> string \<Rightarrow> jsval \<Rightarrow> jsobject" where
  "assign_property obj key v = (if key = ''__proto__'' then obj else map_set obj key v)"

text \<open>The two loops that copy the keys of a section into the preset and into its options.\<close>

fun copy_preset_keys ::
  "ConfigFile \<Rightarrow> string \<Rightarrow> string list \<Rightarrow> jsobject \<Rightarrow> string + jsobject" where
  "copy_preset_keys configFile presetSection [] preset = Inr preset"
| "copy_preset_keys configFile presetSection (key # keys) preset =
     (case get_value configFile presetSection key Undefined of
        Inl e \<Rightarrow> Inl e
      | Inr v \<Rightarrow>
          if key = ''options'' then copy_preset_keys configFile presetSection keys preset
          else copy_preset_keys configFile presetSection keys (assign_property preset key v))"

fun copy_option_keys ::
  "ConfigFile \<Rightarrow> string \<Rightarrow> string list \<Rightarrow> jsobject \<Rightarrow> string + jsobject" where
  "copy_option_keys configFile optionsSection [] options = Inr options"
| "copy_option_keys configFile optionsSection (key # keys) options =
     (case get_value configFile optionsSection key Undefined of
        Inl e \<Rightarrow> Inl e
      | Inr v \<Rightarrow>
          copy_option_keys configFile optionsSection keys (assign_property options key v))"

definition build_preset :: "ConfigFile \<Rightarrow> string \<Rightarrow> string + jsobject" where
  "build_preset configFile presetSection =
     (case copy_preset_keys configFile presetSection (get_section_keys configFile presetSection)
             [(''name'', Str []), (''platform'', Str []), (''runnable'', Bool False)] of
        Inl e \<Rightarrow> Inl e
      | Inr preset \<Rightarrow>
          (let optionsSection = presetSection @ ''.options''
           in if has_section configFile optionsSection then
                (case copy_option_keys configFile optionsSection
                        (get_section_keys configFile optionsSection) [] of
                   Inl e \<Rightarrow> Inl e
                 | Inr options \<Rightarrow> Inr (map_set preset ''options'' (Obj options)))
              else Inr preset))"

fun build_presets :: "ConfigFile \<Rightarrow> string list \<Rightarrow> string + jsobject list" where
  "build_presets configFile [] = Inr []"
| "build_presets configFile (presetSection # rest) =
     (case build_preset configFile presetSection of
        Inl e \<Rightarrow> Inl e
      | Inr preset \<Rightarrow>
          (case build_presets configFile rest of
             Inl e \<Rightarrow> Inl e
           | Inr presets \<Rightarrow> Inr (preset # presets)))"

definition preset_sections :: "ConfigFile \<Rightarrow> string list" where
  "preset_sections configFile =
     js_sort compare_sections
       (filter (\<lambda>s. startsWith s ''preset.'' \<and> \<not> string_includes s ''.options'')
          (get_sections configFile))"

definition parseExportPresets :: "string \<Rightarrow> thrown + jsobject list" where
  "parseExportPresets content =
     (case parse new_ConfigFile content of
        (configFile, Some error) \<Rightarrow> Inl (ThrownParseError error)
      | (configFile, None) \<Rightarrow>
          (case build_presets configFile (preset_sections configFile) of
             Inl e \<Rightarrow> Inl (ThrownError e)
           | Inr presets \<Rightarrow> Inr presets))"

text \<open>
  What it means that the preset \<open>p\<close> is built from the section \<open>sec\<close> with the keys \<open>m\<close>
  of the document \<open>doc\<close>: the three required fields are present, each with its default
  where the section lacks the key; every key of the section other than \<open>options\<close> and
  \<open>__proto__\<close> is copied; the preset has no own property \<open>__proto__\<close>; and the property
  \<open>options\<close> comes from the section \<open>sec.options\<close> alone, absent when the document has
  no such section, and otherwise an object with the keys of that section other than
  \<open>__proto__\<close>.
\<close>

definition preset_built_from :: "document \<Rightarrow> string \<Rightarrow> section_map \<Rightarrow> jsobject \<Rightarrow> bool" where
  "preset_built_from doc sec m p \<longleftrightarrow>
     map_has p ''name'' \<and> map_has p ''platform'' \<and> map_has p ''runnable'' \<and>
     (\<not> map_has m ''name'' \<longrightarrow> map_get p ''name'' = Some (Str [])) \<and>
     (\<not> map_has m ''platform'' \<longrightarrow> map_get p ''platform'' = Some (Str [])) \<and>
     (\<not> map_has m ''runnable'' \<longrightarrow> map_get p ''runnable'' = Some (Bool False)) \<and>
     (\<forall>k. k \<noteq> ''options'' \<longrightarrow> k \<noteq> ''__proto__'' \<longrightarrow> map_has m k \<longrightarrow>
        map_get p k = map_get m k) \<and>
     map_get p ''__proto__'' = None \<and>
     (case map_get doc (sec @ ''.options'') of
        None \<Rightarrow> map_get p ''options'' = None
      | Some mo \<Rightarrow>
          (\<exists>os. map_get p ''options'' = Some (Obj os) \<and>
             (\<forall>k. map_get os k = (if k = ''__proto__'' then None else map_get mo k))))"

section \<open>Merging presets\<close>
















section \<open>Properties of the lexer and the parser\<close>

lemma lex_string_quote:
  "lex_string lno str False \<lparr>pending = DQUOTE # rest, line = l\<rparr> =
     Inr (str, \<lparr>pending = rest, line = l\<rparr>)"
  by (subst lex_string.simps) (simp add: get_char_def Let_def)

lemma lex_string_plain:
  "c \<noteq> DQUOTE \<Longrightarrow> c \<noteq> BACKSLASH \<Longrightarrow> c \<noteq> NUL \<Longrightarrow>
   lex_string lno str False \<lparr>pending = c # cs, line = l\<rparr> =
     lex_string lno (str @ [c]) False \<lparr>pending = cs, line = (if c = LF then l + 1 else l)\<rparr>"
  by (subst lex_string.simps) (simp add: get_char_def Let_def)

lemma lex_string_backslash:
  "lex_string lno str False \<lparr>pending = BACKSLASH # cs, line = l\<rparr> =
     lex_string lno str True \<lparr>pending = cs, line = l\<rparr>"
  by (subst lex_string.simps) (simp add: get_char_def Let_def)

lemma lex_string_escaped:
  "c \<noteq> NUL \<Longrightarrow>
   lex_string lno str True \<lparr>pending = c # cs, line = l\<rparr> =
     lex_string lno (str @ [escape_char c]) False
       \<lparr>pending = cs, line = (if c = LF then l + 1 else l)\<rparr>"
  by (subst lex_string.simps) (simp add: get_char_def Let_def escape_char_def)

lemma lex_string_content:
  "string_content escaped raw = Some body \<Longrightarrow>
   lex_string lno str escaped \<lparr>pending = raw @ DQUOTE # rest, line = l\<rparr> =
     Inr (str @ body, \<lparr>pending = rest, line = l + count_list raw LF\<rparr>)"
proof (induction raw arbitrary: escaped body str l)
  case Nil
  then have "\<not> escaped" and "body = []" by (simp_all split: if_splits)
  then show ?case by (simp add: lex_string_quote)
next
  case (Cons c cs)
  from Cons.prems have nz: "c \<noteq> NUL" by (simp split: if_splits)
  consider (esc) "escaped" | (bs) "\<not> escaped" "c = BACKSLASH"
    | (plain) "\<not> escaped" "c \<noteq> BACKSLASH"
    by blast
  then show ?case
  proof cases
    case esc
    with Cons.prems nz obtain b where
      b: "string_content False cs = Some b" and body: "body = escape_char c # b"
      by auto
    have "lex_string lno (str @ [escape_char c]) False
        \<lparr>pending = cs @ DQUOTE # rest, line = (if c = LF then l + 1 else l)\<rparr> =
      Inr ((str @ [escape_char c]) @ b,
        \<lparr>pending = rest, line = (if c = LF then l + 1 else l) + count_list cs LF\<rparr>)"
      by (rule Cons.IH [OF b])
    with esc nz body show ?thesis by (simp add: lex_string_escaped)
  next
    case bs
    with Cons.prems nz have b: "string_content True cs = Some body" by simp
    have "lex_string lno str True \<lparr>pending = cs @ DQUOTE # rest, line = l\<rparr> =
      Inr (str @ body, \<lparr>pending = rest, line = l + count_list cs LF\<rparr>)"
      by (rule Cons.IH [OF b])
    with bs show ?thesis by (simp add: lex_string_backslash)
  next
    case plain
    with Cons.prems nz have nq: "c \<noteq> DQUOTE" by (simp split: if_splits)
    with plain Cons.prems nz obtain b where
      b: "string_content False cs = Some b" and body: "body = c # b"
      by auto
    have "lex_string lno (str @ [c]) False
        \<lparr>pending = cs @ DQUOTE # rest, line = (if c = LF then l + 1 else l)\<rparr> =
      Inr ((str @ [c]) @ b,
        \<lparr>pending = rest, line = (if c = LF then l + 1 else l) + count_list cs LF\<rparr>)"
      by (rule Cons.IH [OF b])
    with plain nz nq body show ?thesis by (simp add: lex_string_plain)
  qed
qed

lemma skip_whitespace_none:
  "\<not> is_whitespace (peek_char s) \<Longrightarrow> skip_whitespace s = s"
  by (subst skip_whitespace.simps) simp































lemma skip_whitespace_prefix:
  assumes "\<forall>c \<in> set ws. is_whitespace c" and "\<not> is_whitespace (peek_char \<lparr>pending = rest, line = l + count_list ws LF\<rparr>)"
  shows "skip_whitespace \<lparr>pending = ws @ rest, line = l\<rparr> =
     \<lparr>pending = rest, line = l + count_list ws LF\<rparr>"
  using assms
proof (induction ws arbitrary: l)
  case Nil
  then show ?case by (subst skip_whitespace.simps) simp
next
  case (Cons c cs)
  from Cons.prems have w: "is_whitespace c" and ws: "\<forall>c \<in> set cs. is_whitespace c" by auto
  have step: "skip_whitespace \<lparr>pending = (c # cs) @ rest, line = l\<rparr> =
      skip_whitespace \<lparr>pending = cs @ rest, line = (if c = LF then l + 1 else l)\<rparr>"
    using w by (subst skip_whitespace.simps) (simp add: peek_char_def get_char_def)
  have "skip_whitespace \<lparr>pending = cs @ rest, line = (if c = LF then l + 1 else l)\<rparr> =
      \<lparr>pending = rest, line = (if c = LF then l + 1 else l) + count_list cs LF\<rparr>"
    using Cons.prems(2) by (intro Cons.IH [OF ws]) (simp add: peek_char_def)
  with step show ?case by simp
qed






lemma lex_identifier_prefix:
  "\<exists>rest. fst (lex_identifier ident s) = ident @ rest"
proof (induction ident s rule: lex_identifier.induct)
  case (1 ident s)
  show ?case
  proof (cases "is_identifier_char (peek_char s)")
    case True
    from "1.IH" [OF True] obtain rest where
      "fst (lex_identifier (ident @ [fst (get_char s)]) (snd (get_char s))) =
         (ident @ [fst (get_char s)]) @ rest" by blast
    with True show ?thesis
      by (subst lex_identifier.simps) simp
  next
    case False
    then show ?thesis by (subst lex_identifier.simps) simp
  qed
qed

lemma lex_default_identifier:
  assumes "lex_default lno c s1 = Inr (tok, s')" and "ttype tok = IDENTIFIER"
  shows "\<exists>rest. tvalue tok = SVal (c # rest) \<and> (is_alpha c \<or> c = CHR ''/'')"
proof -
  from lex_identifier_prefix [of "[c]" s1] obtain rest where
    r: "fst (lex_identifier [c] s1) = c # rest" by auto
  from assms show ?thesis
    unfolding lex_default_def Let_def r
    by (auto split: if_splits)
qed

lemma get_token_identifier:
  "get_token s = Inr (tok, s') \<Longrightarrow> ttype tok = IDENTIFIER \<Longrightarrow>
   \<exists>c rest. tvalue tok = SVal (c # rest) \<and> (is_alpha c \<or> c = CHR ''/'')"
proof (induction s rule: get_token.induct)
  case (1 stream)
  define s0 where "s0 = skip_whitespace stream"
  define c where "c = fst (get_char s0)"
  define s1 where "s1 = snd (get_char s0)"
  note IH = "1.IH" [OF s0_def refl c_def s1_def]
  have unf: "get_token stream = (if c = NUL then Inr (Token EOF (SVal []) (line s0), s1)
         else if c = CHR ''['' then Inr (Token BRACKET_OPEN (SVal [c]) (line s0), s1)
         else if c = CHR '']'' then Inr (Token BRACKET_CLOSE (SVal [c]) (line s0), s1)
         else if c = CHR ''('' then Inr (Token PARENTHESIS_OPEN (SVal [c]) (line s0), s1)
         else if c = CHR '')'' then Inr (Token PARENTHESIS_CLOSE (SVal [c]) (line s0), s1)
         else if c = CHR ''='' then Inr (Token EQUAL (SVal [c]) (line s0), s1)
         else if c = CHR '','' then Inr (Token COMMA (SVal [c]) (line s0), s1)
         else if c = CHR '';'' then get_token (skip_comment s1)
         else if c = CHR ''#'' then get_token (skip_comment s1)
         else if c = DQUOTE then
           (case lex_string (line s0) [] False s1 of
              Inl e \<Rightarrow> Inl e
            | Inr (str, s2) \<Rightarrow> Inr (Token STRING (SVal str) (line s0), s2))
         else lex_default (line s0) c s1)"
    unfolding s0_def c_def s1_def by (subst get_token.simps) (simp only: Let_def)
  consider (comment) "c \<noteq> NUL" "c = CHR '';'' \<or> c = CHR ''#''"
    | (str) "c = DQUOTE"
    | (single) "c = NUL \<or> c = CHR ''['' \<or> c = CHR '']'' \<or> c = CHR ''('' \<or> c = CHR '')'' \<or> c = CHR ''='' \<or> c = CHR '',''"
    | (other) "c \<noteq> NUL" "c \<noteq> CHR ''[''" "c \<noteq> CHR '']''" "c \<noteq> CHR ''(''" "c \<noteq> CHR '')''" "c \<noteq> CHR ''=''" "c \<noteq> CHR '',''"
         "c \<noteq> CHR '';''" "c \<noteq> CHR ''#''" "c \<noteq> DQUOTE"
    by blast
  then show ?case
  proof cases
    case comment
    then have "get_token stream = get_token (skip_comment s1)"
      by (subst unf) auto
    with "1.prems" have tk: "get_token (skip_comment s1) = Inr (tok, s')" by simp
    show ?thesis
    proof (cases "c = CHR '';''")
      case True
      show ?thesis by (rule IH(1)) (simp_all add: True tk "1.prems"(2))
    next
      case False
      with comment have h: "c = CHR ''#''" by simp
      show ?thesis by (rule IH(2)) (simp_all add: h tk "1.prems"(2))
    qed
  next
    case str
    with "1.prems" show ?thesis
      by (subst (asm) unf) (auto split: sum.splits)
  next
    case single
    with "1.prems" show ?thesis
      by (subst (asm) unf) auto
  next
    case other
    with "1.prems" have "lex_default (line s0) c s1 = Inr (tok, s')"
      by (subst (asm) unf) simp
    from lex_default_identifier [OF this "1.prems"(2)] show ?thesis by blast
  qed
qed

section \<open>Properties of the serializer\<close>

lemma code_eq_iff: "code c = code d \<longleftrightarrow> c = d"
  by (simp add: code_def)

lemma code_61: "code c = 61 \<longleftrightarrow> c = CHR ''=''"
  using code_eq_iff [of c "CHR ''=''"] by (simp add: code_def)

lemma code_34: "code c = 34 \<longleftrightarrow> c = DQUOTE"
  using code_eq_iff [of c DQUOTE] by (simp add: code_def)

lemma code_59: "code c = 59 \<longleftrightarrow> c = CHR '';''"
  using code_eq_iff [of c "CHR '';''"] by (simp add: code_def)

lemma code_91: "code c = 91 \<longleftrightarrow> c = CHR ''[''"
  using code_eq_iff [of c "CHR ''[''"] by (simp add: code_def)

lemma code_93: "code c = 93 \<longleftrightarrow> c = CHR '']''"
  using code_eq_iff [of c "CHR '']''"] by (simp add: code_def)

lemma needs_quotes_iff:
  "needs_quotes key \<longleftrightarrow>
     \<not> (key \<noteq> [] \<and> (\<forall>c \<in> set key. 33 \<le> code c \<and> code c \<le> 126 \<and>
          c \<notin> {CHR ''='', DQUOTE, CHR '';'', CHR ''['', CHR '']''}))"
  unfolding needs_quotes_def list_ex_iff code_61 code_34 code_59 code_91 code_93
  by (cases key) (auto simp: not_le not_less)

lemma replace_twice:
  "replace_all DQUOTE [BACKSLASH, DQUOTE] (replace_all BACKSLASH [BACKSLASH, BACKSLASH] s) =
     backslash_escape s"
  by (induction s) (simp_all add: replace_all_def backslash_escape_def)

section \<open>Properties of the preset functions\<close>

lemma map_get_map_set: "map_get (map_set m k v) k' = (if k' = k then Some v else map_get m k')"
  by (simp add: map_get_def map_set_def update_conv')









lemma map_has_iff: "map_has m k \<longleftrightarrow> k \<in> fst ` set m"
  by (simp add: map_has_def map_of_eq_None_iff)

lemma map_has_get: "map_has m k \<longleftrightarrow> map_get m k \<noteq> None"
  by (simp add: map_has_def map_get_def)

lemma map_get_assign_property:
  "map_get (assign_property m k v) k' =
     (if k' = k \<and> k \<noteq> ''__proto__'' then Some v else map_get m k')"
  by (simp add: assign_property_def map_get_map_set)

lemma get_value_present:
  assumes "map_get (cf_values cf) sec = Some m" and "key \<in> fst ` set m"
  shows "\<exists>v. get_value cf sec key Undefined = Inr v \<and> map_get m key = Some v"
proof -
  from assms(2) have h: "map_has m key" by (simp add: map_has_iff)
  then obtain v where v: "map_get m key = Some v" by (auto simp: map_has_get)
  with assms(1) h show ?thesis by (simp add: get_value_def)
qed

lemma copy_preset_keys_ok:
  assumes "map_get (cf_values cf) sec = Some m"
  shows "set keys \<subseteq> fst ` set m \<Longrightarrow>
    \<exists>p. copy_preset_keys cf sec keys preset = Inr p \<and>
      (\<forall>k. map_get p k =
         (if k \<in> set keys \<and> k \<noteq> ''options'' \<and> k \<noteq> ''__proto__'' then map_get m k
          else map_get preset k))"
proof (induction keys arbitrary: preset)
  case Nil
  show ?case by simp
next
  case (Cons key keys)
  from Cons.prems have km: "key \<in> fst ` set m" and sub: "set keys \<subseteq> fst ` set m" by auto
  from get_value_present [OF assms km] obtain v where
    gv: "get_value cf sec key Undefined = Inr v" and mv: "map_get m key = Some v" by blast
  show ?case
  proof (cases "key = ''options''")
    case True
    from Cons.IH [OF sub, of preset] obtain p where
      p: "copy_preset_keys cf sec keys preset = Inr p"
      "\<forall>k. map_get p k =
         (if k \<in> set keys \<and> k \<noteq> ''options'' \<and> k \<noteq> ''__proto__'' then map_get m k
          else map_get preset k)"
      by blast
    with gv True show ?thesis by auto
  next
    case False
    from Cons.IH [OF sub, of "assign_property preset key v"] obtain p where
      p: "copy_preset_keys cf sec keys (assign_property preset key v) = Inr p"
      "\<forall>k. map_get p k =
         (if k \<in> set keys \<and> k \<noteq> ''options'' \<and> k \<noteq> ''__proto__'' then map_get m k
          else map_get (assign_property preset key v) k)"
      by blast
    with gv False mv show ?thesis by (auto simp: map_get_assign_property)
  qed
qed

lemma copy_option_keys_ok:
  assumes "map_get (cf_values cf) sec = Some m"
  shows "set keys \<subseteq> fst ` set m \<Longrightarrow>
    \<exists>p. copy_option_keys cf sec keys options = Inr p \<and>
      (\<forall>k. map_get p k =
         (if k \<in> set keys \<and> k \<noteq> ''__proto__'' then map_get m k else map_get options k))"
proof (induction keys arbitrary: options)
  case Nil
  show ?case by simp
next
  case (Cons key keys)
  from Cons.prems have km: "key \<in> fst ` set m" and sub: "set keys \<subseteq> fst ` set m" by auto
  from get_value_present [OF assms km] obtain v where
    gv: "get_value cf sec key Undefined = Inr v" and mv: "map_get m key = Some v" by blast
  from Cons.IH [OF sub, of "assign_property options key v"] obtain p where
    p: "copy_option_keys cf sec keys (assign_property options key v) = Inr p"
    "\<forall>k. map_get p k =
       (if k \<in> set keys \<and> k \<noteq> ''__proto__'' then map_get m k
        else map_get (assign_property options key v) k)"
    by blast
  with gv mv show ?case by (auto simp: map_get_assign_property)
qed

lemma build_preset_ok:
  assumes m: "map_get (cf_values cf) sec = Some m"
  shows "\<exists>p. build_preset cf sec = Inr p \<and> preset_built_from (cf_values cf) sec m p"
proof -
  let ?defaults = "[(''name'', Str []), (''platform'', Str []), (''runnable'', Bool False)]"
  have keys: "get_section_keys cf sec = map fst m"
    using m by (simp add: get_section_keys_def)
  from copy_preset_keys_ok [OF m, of "map fst m" ?defaults] obtain p0 where
    p0: "copy_preset_keys cf sec (map fst m) ?defaults = Inr p0"
    and l0: "\<And>k. map_get p0 k =
       (if k \<in> set (map fst m) \<and> k \<noteq> ''options'' \<and> k \<noteq> ''__proto__'' then map_get m k
        else map_get ?defaults k)"
    by auto
  have l0': "\<And>k. map_get p0 k =
       (if map_has m k \<and> k \<noteq> ''options'' \<and> k \<noteq> ''__proto__'' then map_get m k
        else map_get ?defaults k)"
    using l0 by (simp add: map_has_iff)
  have base: "map_has p0 ''name'' \<and> map_has p0 ''platform'' \<and> map_has p0 ''runnable'' \<and>
     (\<not> map_has m ''name'' \<longrightarrow> map_get p0 ''name'' = Some (Str [])) \<and>
     (\<not> map_has m ''platform'' \<longrightarrow> map_get p0 ''platform'' = Some (Str [])) \<and>
     (\<not> map_has m ''runnable'' \<longrightarrow> map_get p0 ''runnable'' = Some (Bool False)) \<and>
     (\<forall>k. k \<noteq> ''options'' \<longrightarrow> k \<noteq> ''__proto__'' \<longrightarrow> map_has m k \<longrightarrow>
        map_get p0 k = map_get m k) \<and>
     map_get p0 ''__proto__'' = None \<and>
     map_get p0 ''options'' = None"
    unfolding map_has_get [of p0] l0' by (simp add: map_has_get map_get_def)
  show ?thesis
  proof (cases "map_get (cf_values cf) (sec @ ''.options'')")
    case None
    then have "\<not> has_section cf (sec @ ''.options'')"
      by (simp add: has_section_def map_has_get)
    with p0 keys have "build_preset cf sec = Inr p0"
      by (simp add: build_preset_def Let_def)
    with base None show ?thesis
      by (simp add: preset_built_from_def)
  next
    case (Some mo)
    then have hs: "has_section cf (sec @ ''.options'')"
      by (simp add: has_section_def map_has_get)
    have okeys: "get_section_keys cf (sec @ ''.options'') = map fst mo"
      using Some by (simp add: get_section_keys_def)
    from copy_option_keys_ok [OF Some, of "map fst mo" "[]"] obtain os where
      os: "copy_option_keys cf (sec @ ''.options'') (map fst mo) [] = Inr os"
      and lo: "\<And>k. map_get os k =
         (if k \<in> set (map fst mo) \<and> k \<noteq> ''__proto__'' then map_get mo k else map_get [] k)"
      by auto
    have lo': "\<forall>k. map_get os k = (if k = ''__proto__'' then None else map_get mo k)"
    proof
      fix k
      show "map_get os k = (if k = ''__proto__'' then None else map_get mo k)"
      proof (cases "k \<in> fst ` set mo")
        case True
        with lo [of k] show ?thesis by (simp add: map_get_def)
      next
        case False
        then have "map_get mo k = None" by (simp add: map_get_def map_of_eq_None_iff)
        with False lo [of k] show ?thesis by (simp add: map_get_def)
      qed
    qed
    from p0 keys hs os okeys have b: "build_preset cf sec = Inr (map_set p0 ''options'' (Obj os))"
      by (simp add: build_preset_def Let_def)
    have "preset_built_from (cf_values cf) sec m (map_set p0 ''options'' (Obj os))"
      unfolding preset_built_from_def using base lo' Some
      by (simp add: map_has_get map_get_map_set)
    with b show ?thesis by blast
  qed
qed

lemma build_presets_member:
  "build_presets cf secs = Inr ps \<Longrightarrow> p \<in> set ps \<Longrightarrow>
   \<exists>sec \<in> set secs. build_preset cf sec = Inr p"
proof (induction secs arbitrary: ps)
  case Nil
  then show ?case by simp
next
  case (Cons sec secs)
  from Cons.prems(1) obtain q qs where
    q: "build_preset cf sec = Inr q" and qs: "build_presets cf secs = Inr qs" and ps: "ps = q # qs"
    by (auto split: sum.splits)
  from Cons.prems(2) ps have "p = q \<or> p \<in> set qs" by auto
  then show ?case
  proof
    assume "p = q"
    with q show ?thesis by simp
  next
    assume "p \<in> set qs"
    from Cons.IH [OF qs this] show ?thesis by auto
  qed
qed

lemma build_presets_total:
  "(\<forall>sec \<in> set secs. \<exists>m. map_get (cf_values cf) sec = Some m) \<Longrightarrow>
   \<exists>ps. build_presets cf secs = Inr ps"
proof (induction secs)
  case Nil
  show ?case by simp
next
  case (Cons sec secs)
  then obtain m where "map_get (cf_values cf) sec = Some m" by auto
  from build_preset_ok [OF this] obtain p where "build_preset cf sec = Inr p" by blast
  moreover from Cons obtain ps where "build_presets cf secs = Inr ps" by auto
  ultimately show ?case by simp
qed

lemma set_sort_insert: "set (sort_insert cmp x ys) = insert x (set ys)"
  by (induction ys) auto

lemma set_js_sort: "set (js_sort cmp xs) = set xs"
  unfolding js_sort_def by (induction xs) (simp_all add: set_sort_insert)

lemma preset_sections_member:
  assumes "sec \<in> set (preset_sections cf)"
  shows "startsWith sec ''preset.'' \<and> \<not> string_includes sec ''.options'' \<and>
         (\<exists>m. map_get (cf_values cf) sec = Some m)"
proof -
  from assms have f: "startsWith sec ''preset.''" "\<not> string_includes sec ''.options''"
    and mem: "sec \<in> set (get_sections cf)"
    by (simp_all add: preset_sections_def set_js_sort)
  from mem have "sec \<in> fst ` set (cf_values cf)" by (simp add: get_sections_def)
  then have "map_get (cf_values cf) sec \<noteq> None"
    by (simp add: map_get_def map_of_eq_None_iff)
  with f show ?thesis by auto
qed

section \<open>The claims\<close>

text \<open>
  C1. Claim: for every Document built from scalar, Color and Vector2 values, parsing the
  serialized text gives the Document back. The code does not do this for a \<open>null\<close>
  value: the serializer writes \<open>null\<close>, which the value parser rejects as an unknown
  identifier, so the parse of the serialized document \<open>{s: {k: null}}\<close> ends with an
  error and an empty section \<open>s\<close>.
\<close>

theorem roundtrip_null_fails:
  "serialize_config nt [(''s'', [(''k'', Null)])] = ''[s]'' @ [LF, LF] @ ''k=null'' @ [LF] \<and>
   parse_config (serialize_config nt [(''s'', [(''k'', Null)])]) =
     ([(''s'', [])], Some (ParseError ''Unknown identifier: null'' 3))"
  by code_simp

text \<open>The same happens for the number \<open>NaN\<close>, written \<open>nan\<close>, and for the infinities.\<close>

lemma roundtrip_special_numbers_fail:
  "parse_config (serialize_config nt [(''s'', [(''k'', Num NaN)])]) =
     ([(''s'', [])], Some (ParseError ''Unknown identifier: nan'' 3)) \<and>
   parse_config (serialize_config nt [(''s'', [(''k'', Num PosInfinity)])]) =
     ([(''s'', [])], Some (ParseError ''Unknown identifier: inf'' 3)) \<and>
   parse_config (serialize_config nt [(''s'', [(''k'', Num NegInfinity)])]) =
     ([(''s'', [])], Some (ParseError ''Unexpected character: -'' 3))"
  by code_simp

text \<open>
  C2. Claim: an unescaped double quote closes the string only if white space, the end of
  the input or a comment follows; otherwise it is content. In the code both branches of
  the look-ahead test leave the loop: in the text \<open>"a"=1\<close> the quote before \<open>=\<close> closes the
  string \<open>a\<close>, where the rule of the claim reads on and finds no end.
\<close>

theorem quote_before_equal_closes_string:
  "get_token (new_Stream ''\"a\"=1'') =
     Inr (Token STRING (SVal ''a'') 1, \<lparr>pending = ''=1'', line = 1\<rparr>) \<and>
   lex_string 1 [] False \<lparr>pending = ''a\"=1'', line = 1\<rparr> =
     Inr (''a'', \<lparr>pending = ''=1'', line = 1\<rparr>) \<and>
   lex_string_spec 1 [] False \<lparr>pending = ''a\"=1'', line = 1\<rparr> =
     Inl (ParseError ''Unterminated string'' 1)"
  by code_simp

text \<open>
  C2, as the code has it: an unescaped double quote always closes the string, whatever
  character follows it and whatever was read before it. In the loop of the string rule
  (first statement), a double quote read while the escape flag is off ends the loop with
  the text read so far. For the token (second statement): after any white space \<open>ws\<close>,
  when every double quote of the raw text \<open>raw\<close> is escaped, the double quote after
  \<open>raw\<close> closes the string, the token is the content of \<open>raw\<close> with its escapes
  resolved, on the line of the opening quote, and the stream continues with \<open>rest\<close>,
  the text right after the closing quote.
\<close>

theorem unescaped_quote_always_closes:
  "lex_string lno str False \<lparr>pending = DQUOTE # rest, line = l\<rparr> =
     Inr (str, \<lparr>pending = rest, line = l\<rparr>) \<and>
   ((\<forall>c \<in> set ws. is_whitespace c) \<and> string_content False raw = Some body \<longrightarrow>
      get_token \<lparr>pending = ws @ DQUOTE # raw @ DQUOTE # rest, line = l\<rparr> =
        Inr (Token STRING (SVal body) (l + count_list ws LF),
             \<lparr>pending = rest, line = l + count_list ws LF + count_list raw LF\<rparr>))"
proof (intro conjI impI)
  show "lex_string lno str False \<lparr>pending = DQUOTE # rest, line = l\<rparr> =
     Inr (str, \<lparr>pending = rest, line = l\<rparr>)"
    by (rule lex_string_quote)
next
  assume a: "(\<forall>c \<in> set ws. is_whitespace c) \<and> string_content False raw = Some body"
  then have w: "\<forall>c \<in> set ws. is_whitespace c"
    and c: "string_content False raw = Some body"
    by simp_all
  have "skip_whitespace \<lparr>pending = ws @ DQUOTE # raw @ DQUOTE # rest, line = l\<rparr> =
      \<lparr>pending = DQUOTE # raw @ DQUOTE # rest, line = l + count_list ws LF\<rparr>"
    by (rule skip_whitespace_prefix [OF w]) (simp add: peek_char_def is_whitespace_def)
  then show "get_token \<lparr>pending = ws @ DQUOTE # raw @ DQUOTE # rest, line = l\<rparr> =
      Inr (Token STRING (SVal body) (l + count_list ws LF),
           \<lparr>pending = rest, line = l + count_list ws LF + count_list raw LF\<rparr>)"
    by (subst get_token_unfold) (simp add: Let_def get_char_def lex_string_content [OF c])
qed

text \<open>
  Instances: after an escaped backslash the double quote is unescaped and closes the
  string before \<open>=\<close>; an escaped double quote is content, and the next one closes the
  string before a letter.
\<close>

theorem unescaped_quote_always_closes_witness:
  "get_token \<lparr>pending = ''\"a'' @ [BACKSLASH, BACKSLASH] @ ''\"=1 \"'', line = 1\<rparr> =
     Inr (Token STRING (SVal (''a'' @ [BACKSLASH])) 1, \<lparr>pending = ''=1 \"'', line = 1\<rparr>) \<and>
   get_token \<lparr>pending = ''\<newline> \"a'' @ [BACKSLASH] @ ''\"b\"c'', line = 1\<rparr> =
     Inr (Token STRING (SVal ''a\"b'') 2, \<lparr>pending = ''c'', line = 2\<rparr>) \<and>
   get_token \<lparr>pending = ''\"a\"=1'', line = 1\<rparr> =
     Inr (Token STRING (SVal ''a'') 1, \<lparr>pending = ''=1'', line = 1\<rparr>) \<and>
   lex_string 1 (''a'' @ [BACKSLASH]) False \<lparr>pending = ''\"=1 \"'', line = 1\<rparr> =
     Inr (''a'' @ [BACKSLASH], \<lparr>pending = ''=1 \"'', line = 1\<rparr>)"
  using
    unescaped_quote_always_closes
      [where ws = "[]" and raw = "''a'' @ [BACKSLASH, BACKSLASH]" and body = "''a'' @ [BACKSLASH]"
         and rest = "''=1 \"''" and l = 1 and lno = 1 and str = "''a'' @ [BACKSLASH]"]
    unescaped_quote_always_closes
      [where ws = "''\<newline> ''" and raw = "''a'' @ [BACKSLASH] @ ''\"b''" and body = "''a\"b''"
         and rest = "''c''" and l = 1]
    unescaped_quote_always_closes
      [where ws = "[]" and raw = "''a''" and body = "''a''" and rest = "''=1''" and l = 1]
  by (simp add: escape_char_def is_whitespace_def)

text \<open>
  C3. Claim: a value written \<open>PackedStringArray(...)\<close>, \<open>PoolStringArray(...)\<close> or
  \<open>StringArray(...)\<close> parses to the sequence of its strings. The value parser knows the
  constructors \<open>Color\<close> and \<open>Vector2\<close> only: the empty list \<open>tags=PackedStringArray()\<close> is
  an unknown identifier.
\<close>

theorem packed_string_array_rejected:
  "parse_config ''tags=PackedStringArray()'' =
     ([], Some (ParseError ''Unknown identifier: PackedStringArray'' 1)) \<and>
   parse_config ''tags=PoolStringArray(\"a\",\"b\")'' =
     ([], Some (ParseError ''Unknown identifier: PoolStringArray'' 1)) \<and>
   parse_config ''tags=StringArray(\"a\",\"b\")'' =
     ([], Some (ParseError ''Unknown identifier: StringArray'' 1))"
  by code_simp






text \<open>
  C6. Claim: an argument of \<open>Color\<close> is a number or one of \<open>inf\<close>, \<open>-inf\<close>, \<open>nan\<close>, and four
  arguments give \<open>{r, g, b, a}\<close>. \<open>parse_construct_args\<close> has the branch for the
  identifier \<open>-inf\<close>, but the lexer never produces it: a minus sign that is not followed
  by a digit is an unexpected character, so \<open>Color(-inf, 0, 0, 1)\<close> does not parse.
\<close>

theorem color_negative_infinity_rejected:
  "parse_config ''c=Color(-inf, 0, 0, 1)'' =
     ([], Some (ParseError ''Unexpected character: -'' 1))"
  by code_simp

text \<open>
  No text reaches that branch: an identifier token starts with a letter, an underscore
  or a slash, so its text is never \<open>-inf\<close> or \<open>-Infinity\<close>.
\<close>

lemma negative_infinity_never_lexed:
  assumes "get_token s = Inr (tok, s')" and "ttype tok = IDENTIFIER"
  shows "token_string (tvalue tok) \<noteq> ''-inf'' \<and> token_string (tvalue tok) \<noteq> ''-Infinity''"
proof -
  from get_token_identifier [OF assms] obtain c rest where
    v: "tvalue tok = SVal (c # rest)" and c: "is_alpha c \<or> c = CHR ''/''" by blast
  from c have "c \<noteq> CHR ''-''" by (auto simp: is_alpha_def code_def)
  with v show ?thesis by simp
qed

text \<open>
  The serializer writes a component \<open>-Infinity\<close> of a Color with its minus sign, so its
  own text for such a Color is rejected in the same way.
\<close>

lemma color_negative_infinity_roundtrip_fails:
  "serialize_config nt
     [([], [(''c'', Obj [(''r'', Num NegInfinity), (''g'', Num NaN),
                         (''b'', Num PosInfinity), (''a'', Num NaN)])])] =
     ''c=Color(-Infinity, NaN, Infinity, NaN)'' @ [LF] \<and>
   parse_config (serialize_config nt
     [([], [(''c'', Obj [(''r'', Num NegInfinity), (''g'', Num NaN),
                         (''b'', Num PosInfinity), (''a'', Num NaN)])])]) =
     ([], Some (ParseError ''Unexpected character: -'' 1))"
  by code_simp

text \<open>
  The rest of the claim holds on its examples: three arguments are an error, four
  numbers give the four components in order, and \<open>inf\<close> and \<open>nan\<close> are accepted.
\<close>

lemma color_arity_examples:
  "parse_config ''c=Color(0, 0.5, 1)'' =
     ([], Some (ParseError ''Expected 4 arguments for Color constructor'' 1)) \<and>
   parse_config ''c=Color(0, 0.5, 1, 1)'' =
     ([([], [(''c'', Obj [(''r'', Num (Finite 0)), (''g'', Num (Finite (1 / 2))),
                          (''b'', Num (Finite 1)), (''a'', Num (Finite 1))])])], None) \<and>
   parse_config ''c=Color(inf, nan, 1, 1)'' =
     ([([], [(''c'', Obj [(''r'', Num PosInfinity), (''g'', Num NaN),
                          (''b'', Num (Finite 1)), (''a'', Num (Finite 1))])])], None)"
  by code_simp

text \<open>
  C7. The key-quoting law: \<open>encode_key\<close> returns the key unchanged exactly when it is
  not empty and each of its characters has a code from 33 to 126 and is none of
  \<open>=\<close>, the double quote, \<open>;\<close>, \<open>[\<close>, \<open>]\<close>; otherwise it returns the key between double
  quotes, with each backslash and each double quote backslash-escaped. After
  \<open>set_value("s", "a=b", 7)\<close> the serialized text has the line \<open>"a=b"=\<close> followed by the
  text of the number 7.
\<close>

theorem encode_key_law:
  "encode_key key =
     (if key \<noteq> [] \<and> (\<forall>c \<in> set key. 33 \<le> code c \<and> code c \<le> 126 \<and>
           c \<notin> {CHR ''='', DQUOTE, CHR '';'', CHR ''['', CHR '']''})
      then key
      else [DQUOTE] @ backslash_escape key @ [DQUOTE])
   \<and> (\<forall>nt. serialize_config nt
            (cf_values (set_value new_ConfigFile ''s'' ''a=b'' (Num (Finite 7)))) =
          ''[s]'' @ [LF, LF] @ ''\"a=b\"='' @ nt 7 @ [LF])"
proof
  show "encode_key key =
     (if key \<noteq> [] \<and> (\<forall>c \<in> set key. 33 \<le> code c \<and> code c \<le> 126 \<and>
           c \<notin> {CHR ''='', DQUOTE, CHR '';'', CHR ''['', CHR '']''})
      then key
      else [DQUOTE] @ backslash_escape key @ [DQUOTE])"
    unfolding encode_key_def Let_def replace_twice needs_quotes_iff by simp
next
  have nq: "needs_quotes ''a=b''"
    unfolding needs_quotes_iff by simp
  have enc: "encode_key ''a=b'' = ''\"a=b\"''"
    unfolding encode_key_def Let_def replace_twice using nq
    by (simp add: backslash_escape_def)
  show "\<forall>nt. serialize_config nt
            (cf_values (set_value new_ConfigFile ''s'' ''a=b'' (Num (Finite 7)))) =
          ''[s]'' @ [LF, LF] @ ''\"a=b\"='' @ nt 7 @ [LF]"
    by (simp add: serialize_config_def set_value_def new_ConfigFile_def map_has_def map_set_def
        map_get_def enc serialize_value_def isNaN_def replace_all_def)
qed

theorem encode_key_law_witness:
  "encode_key ''a=b'' = ''\"a=b\"'' \<and> encode_key ''config/name'' = ''config/name'' \<and>
   encode_key [] = [DQUOTE, DQUOTE] \<and>
   encode_key (''a'' @ [BACKSLASH] @ '' \"b'') = ''\"a'' @ [BACKSLASH, BACKSLASH] @ '' '' @ [BACKSLASH] @ ''\"b\"''"
  using encode_key_law [of "''a=b''"] encode_key_law [of "''config/name''"]
    encode_key_law [of "[]"] encode_key_law [of "''a'' @ [BACKSLASH] @ '' \"b''"]
  by (simp add: backslash_escape_def code_def)

text \<open>
  C8. Claim: in a section header an escaped closing bracket belongs to the section name.
  The document parser replaces the escape after the name has been lexed, but the lexer
  stops the bare name at the backslash and rejects the backslash: the header
  \<open>[a\]b]\<close>, which the serializer writes for the section \<open>a]b\<close>, does not parse.
\<close>

theorem escaped_bracket_header_rejected:
  "parse_config (''[a'' @ [BACKSLASH] @ '']b]'') =
     ([], Some (ParseError (''Unexpected character: '' @ [BACKSLASH]) 1)) \<and>
   serialize_config nt [(''a]b'', [(''x'', Bool True)])] =
     ''[a'' @ [BACKSLASH] @ '']b]'' @ [LF, LF] @ ''x=true'' @ [LF] \<and>
   parse_config (serialize_config nt [(''a]b'', [(''x'', Bool True)])]) =
     ([], Some (ParseError (''Unexpected character: '' @ [BACKSLASH]) 1))"
  by code_simp

text \<open>
  Only inside a quoted name does the escape get through, and there it is the string rule
  of the lexer that drops the backslash, before the replacement is applied.
\<close>

lemma quoted_header_escape_example:
  "parse_config (''[\"a'' @ [BACKSLASH] @ '']b\"]'' @ [LF] @ ''x=1'') =
     ([(''a]b'', [(''x'', Num (Finite 1))])], None)"
  by code_simp

text \<open>
  C9. When \<open>ConfigFile.parse\<close> returns an error the object is unchanged: the map parsed up
  to the failure is dropped. The stored map is replaced by the parsed one exactly when
  \<open>parse\<close> returns no error. The error returned is the one of \<open>parse_config\<close>.
\<close>

theorem parse_keeps_values_on_error:
  assumes "parse this content = (this', err)"
  shows "err = snd (parse_config content) \<and>
         (err \<noteq> None \<longrightarrow> this' = this) \<and>
         (err = None \<longrightarrow> this' = this\<lparr>cf_values := fst (parse_config content)\<rparr>)"
  using assms unfolding parse_def
  by (cases "parse_config content") (auto split: option.splits)

theorem parse_keeps_values_on_error_witness:
  "parse (set_value new_ConfigFile ''old'' ''k'' (Bool True)) ''a=1\<newline>b=\"xyz'' =
     (set_value new_ConfigFile ''old'' ''k'' (Bool True), Some (ParseError ''Unterminated string'' 2)) \<and>
   parse_config ''a=1\<newline>b=\"xyz'' =
     ([([], [(''a'', Num (Finite 1))])], Some (ParseError ''Unterminated string'' 2)) \<and>
   parse new_ConfigFile ''a=1'' = (\<lparr>cf_values = [([], [(''a'', Num (Finite 1))])]\<rparr>, None)"
proof -
  have h1: "parse (set_value new_ConfigFile ''old'' ''k'' (Bool True)) ''a=1\<newline>b=\"xyz'' =
     (set_value new_ConfigFile ''old'' ''k'' (Bool True), Some (ParseError ''Unterminated string'' 2))"
    by code_simp
  have h2: "parse new_ConfigFile ''a=1'' = (\<lparr>cf_values = [([], [(''a'', Num (Finite 1))])]\<rparr>, None)"
    by code_simp
  have h3: "parse_config ''a=1\<newline>b=\"xyz'' =
     ([([], [(''a'', Num (Finite 1))])], Some (ParseError ''Unterminated string'' 2))"
    by code_simp
  from parse_keeps_values_on_error [OF h1] parse_keeps_values_on_error [OF h2] h1 h2 h3
  show ?thesis by simp
qed

text \<open>
  C10. Every preset that \<open>parseExportPresets\<close> returns is built from a section whose name
  starts with \<open>preset.\<close>: it has the fields \<open>name\<close>, \<open>platform\<close> and \<open>runnable\<close>, which are
  the empty string, the empty string and \<open>false\<close> where the section lacks the key, and a
  key named \<open>options\<close> in the section is not copied (nor is a key named \<open>__proto__\<close>,
  whose assignment stores no property). Whenever the text parses without error,
  \<open>parseExportPresets\<close> returns a list of presets.
\<close>

theorem parseExportPresets_required_fields:
  "(parseExportPresets content = Inr presets \<and> p \<in> set presets \<longrightarrow>
      (\<exists>sec m. startsWith sec ''preset.'' \<and>
         map_get (fst (parse_config content)) sec = Some m \<and>
         preset_built_from (fst (parse_config content)) sec m p)) \<and>
   (snd (parse_config content) = None \<longrightarrow> (\<exists>ps. parseExportPresets content = Inr ps))"
proof (intro conjI impI)
  assume a: "parseExportPresets content = Inr presets \<and> p \<in> set presets"
  define cf where "cf = new_ConfigFile\<lparr>cf_values := fst (parse_config content)\<rparr>"
  have v: "cf_values cf = fst (parse_config content)" by (simp add: cf_def)
  from a have b: "build_presets cf (preset_sections cf) = Inr presets"
    unfolding parseExportPresets_def parse_def cf_def
    by (cases "parse_config content") (auto split: option.splits sum.splits)
  from build_presets_member [OF b] a obtain sec where
    sec: "sec \<in> set (preset_sections cf)" and bp: "build_preset cf sec = Inr p" by blast
  from preset_sections_member [OF sec] obtain m where
    sw: "startsWith sec ''preset.''" and m: "map_get (cf_values cf) sec = Some m" by blast
  from build_preset_ok [OF m] bp have "preset_built_from (cf_values cf) sec m p" by auto
  with sw m show "\<exists>sec m. startsWith sec ''preset.'' \<and>
         map_get (fst (parse_config content)) sec = Some m \<and>
         preset_built_from (fst (parse_config content)) sec m p"
    unfolding v by blast
next
  assume n: "snd (parse_config content) = None"
  define cf where "cf = new_ConfigFile\<lparr>cf_values := fst (parse_config content)\<rparr>"
  have "\<forall>sec \<in> set (preset_sections cf). \<exists>m. map_get (cf_values cf) sec = Some m"
    using preset_sections_member by blast
  from build_presets_total [OF this] obtain ps where
    "build_presets cf (preset_sections cf) = Inr ps" by blast
  with n show "\<exists>ps. parseExportPresets content = Inr ps"
    unfolding parseExportPresets_def parse_def cf_def
    by (cases "parse_config content") auto
qed

theorem parseExportPresets_required_fields_witness:
  "parseExportPresets
     ''[preset.1]\<newline>name=\"iOS\"\<newline>options=5\<newline>[preset.0]\<newline>platform=\"Android\"\<newline>[preset.0.options]\<newline>a/b=true\<newline>'' =
     Inr [[(''name'', Str []), (''platform'', Str ''Android''), (''runnable'', Bool False),
           (''options'', Obj [(''a/b'', Bool True)])],
          [(''name'', Str ''iOS''), (''platform'', Str []), (''runnable'', Bool False)]] \<and>
   (\<exists>sec m. startsWith sec ''preset.'' \<and>
      map_get (fst (parse_config
        ''[preset.1]\<newline>name=\"iOS\"\<newline>options=5\<newline>[preset.0]\<newline>platform=\"Android\"\<newline>[preset.0.options]\<newline>a/b=true\<newline>'')) sec = Some m \<and>
      preset_built_from (fst (parse_config
        ''[preset.1]\<newline>name=\"iOS\"\<newline>options=5\<newline>[preset.0]\<newline>platform=\"Android\"\<newline>[preset.0.options]\<newline>a/b=true\<newline>'')) sec m
        [(''name'', Str ''iOS''), (''platform'', Str []), (''runnable'', Bool False)]) \<and>
   parseExportPresets
     ''[preset.0]\<newline>__proto__=5\<newline>name=\"A\"\<newline>[preset.0.options]\<newline>__proto__=true\<newline>x=false\<newline>'' =
     Inr [[(''name'', Str ''A''), (''platform'', Str []), (''runnable'', Bool False),
           (''options'', Obj [(''x'', Bool False)])]] \<and>
   (\<exists>sec m. startsWith sec ''preset.'' \<and>
      map_get (fst (parse_config
        ''[preset.0]\<newline>__proto__=5\<newline>name=\"A\"\<newline>[preset.0.options]\<newline>__proto__=true\<newline>x=false\<newline>'')) sec = Some m \<and>
      preset_built_from (fst (parse_config
        ''[preset.0]\<newline>__proto__=5\<newline>name=\"A\"\<newline>[preset.0.options]\<newline>__proto__=true\<newline>x=false\<newline>'')) sec m
        [(''name'', Str ''A''), (''platform'', Str []), (''runnable'', Bool False),
           (''options'', Obj [(''x'', Bool False)])])"
proof -
  have h1: "parseExportPresets
     ''[preset.1]\<newline>name=\"iOS\"\<newline>options=5\<newline>[preset.0]\<newline>platform=\"Android\"\<newline>[preset.0.options]\<newline>a/b=true\<newline>'' =
     Inr [[(''name'', Str []), (''platform'', Str ''Android''), (''runnable'', Bool False),
           (''options'', Obj [(''a/b'', Bool True)])],
          [(''name'', Str ''iOS''), (''platform'', Str []), (''runnable'', Bool False)]]"
    by code_simp
  have h2: "parseExportPresets
     ''[preset.0]\<newline>__proto__=5\<newline>name=\"A\"\<newline>[preset.0.options]\<newline>__proto__=true\<newline>x=false\<newline>'' =
     Inr [[(''name'', Str ''A''), (''platform'', Str []), (''runnable'', Bool False),
           (''options'', Obj [(''x'', Bool False)])]]"
    by code_simp
  from parseExportPresets_required_fields
    [of "''[preset.1]\<newline>name=\"iOS\"\<newline>options=5\<newline>[preset.0]\<newline>platform=\"Android\"\<newline>[preset.0.options]\<newline>a/b=true\<newline>''"
        "[[(''name'', Str []), (''platform'', Str ''Android''), (''runnable'', Bool False),
           (''options'', Obj [(''a/b'', Bool True)])],
          [(''name'', Str ''iOS''), (''platform'', Str []), (''runnable'', Bool False)]]"
        "[(''name'', Str ''iOS''), (''platform'', Str []), (''runnable'', Bool False)]"] h1
  have e1: "(\<exists>sec m. startsWith sec ''preset.'' \<and>
      map_get (fst (parse_config
        ''[preset.1]\<newline>name=\"iOS\"\<newline>options=5\<newline>[preset.0]\<newline>platform=\"Android\"\<newline>[preset.0.options]\<newline>a/b=true\<newline>'')) sec = Some m \<and>
      preset_built_from (fst (parse_config
        ''[preset.1]\<newline>name=\"iOS\"\<newline>options=5\<newline>[preset.0]\<newline>platform=\"Android\"\<newline>[preset.0.options]\<newline>a/b=true\<newline>'')) sec m
        [(''name'', Str ''iOS''), (''platform'', Str []), (''runnable'', Bool False)])"
    by (simp only: list.set insert_iff simp_thms)
  from parseExportPresets_required_fields
    [of "''[preset.0]\<newline>__proto__=5\<newline>name=\"A\"\<newline>[preset.0.options]\<newline>__proto__=true\<newline>x=false\<newline>''"
        "[[(''name'', Str ''A''), (''platform'', Str []), (''runnable'', Bool False),
           (''options'', Obj [(''x'', Bool False)])]]"
        "[(''name'', Str ''A''), (''platform'', Str []), (''runnable'', Bool False),
           (''options'', Obj [(''x'', Bool False)])]"] h2
  have e2: "(\<exists>sec m. startsWith sec ''preset.'' \<and>
      map_get (fst (parse_config
        ''[preset.0]\<newline>__proto__=5\<newline>name=\"A\"\<newline>[preset.0.options]\<newline>__proto__=true\<newline>x=false\<newline>'')) sec = Some m \<and>
      preset_built_from (fst (parse_config
        ''[preset.0]\<newline>__proto__=5\<newline>name=\"A\"\<newline>[preset.0.options]\<newline>__proto__=true\<newline>x=false\<newline>'')) sec m
        [(''name'', Str ''A''), (''platform'', Str []), (''runnable'', Bool False),
           (''options'', Obj [(''x'', Bool False)])])"
    by (simp only: list.set insert_iff simp_thms)
  show ?thesis by (rule conjI [OF h1 conjI [OF e1 conjI [OF h2 e2]]])
qed

end
